theory Spec2Isabelle
  imports Complex_Main
begin

section \<open>Data model (types.ts)\<close>

text \<open>
  The evaluator is given twice. In the first, exact, form a JavaScript \<open>number\<close> is a
  mathematical real; it carries the formulas. Reading an array past its end gives
  \<open>undefined\<close> in the source; that read is modelled by \<open>js_index\<close>, and arithmetic on
  \<open>undefined\<close> (which yields NaN in the source) is modelled by the element \<open>None\<close>. The
  second form, further down, computes in IEEE-754 binary64 as the source does; it carries
  the ranges of the results, which the rounding decides.
\<close>

datatype ModelType = UGRNN | GRU | LSTM

record SimulationParams =
  vectorSize :: nat
  inputX :: "real list"
  hiddenH :: "real list"
  cellC :: "real list option"
  biasGate1 :: real
  biasGate2 :: real
  biasGate3 :: real

record SimulationResult =
  finalH :: "real option list"
  finalC :: "real list option"
  gate1 :: "real list"
  gate2 :: "real list"
  gate3 :: "real list"
  candidateState :: "real list"
  tanhC :: "real list option"

definition well_formed :: "SimulationParams \<Rightarrow> bool" where
  \<comment> \<open>every vector has the configured dimensionality\<close>
  "well_formed p \<longleftrightarrow>
     length (inputX p) = vectorSize p \<and> length (hiddenH p) = vectorSize p \<and>
     (case cellC p of None \<Rightarrow> True | Some c \<Rightarrow> length c = vectorSize p)"

section \<open>Vector helpers (utils/math.ts)\<close>

definition js_index :: "'a list \<Rightarrow> nat \<Rightarrow> 'a option" where
  \<comment> \<open>\<open>v[i]\<close>: \<open>None\<close> stands for \<open>undefined\<close>.\<close>
  "js_index v i = (if i < length v then Some (v ! i) else None)"

definition or_zero :: "real option \<Rightarrow> real" where
  \<comment> \<open>\<open>a || 0\<close>: \<open>undefined\<close> and \<open>0\<close> are falsy.\<close>
  "or_zero a = (case a of None \<Rightarrow> 0 | Some x \<Rightarrow> (if x = 0 then 0 else x))"

definition map_index :: "('a \<Rightarrow> nat \<Rightarrow> 'b) \<Rightarrow> 'a list \<Rightarrow> 'b list" where
  \<comment> \<open>\<open>v.map((val, i) => f(val, i))\<close>\<close>
  "map_index f v = map (\<lambda>i. f (v ! i) i) [0..<length v]"

definition vecSigmoid :: "real list \<Rightarrow> real \<Rightarrow> real list" where
  "vecSigmoid v bias = map (\<lambda>x. 1 / (1 + exp (- (x + bias)))) v"

definition vecTanh :: "real list \<Rightarrow> real \<Rightarrow> real list" where
  "vecTanh v bias = map (\<lambda>x. tanh (x + bias)) v"

definition vecAdd :: "real list \<Rightarrow> real list \<Rightarrow> real list" where
  "vecAdd v1 v2 = map_index (\<lambda>val i. val + or_zero (js_index v2 i)) v1"

definition vecMult :: "real list \<Rightarrow> real list \<Rightarrow> real list" where
  "vecMult v1 v2 = map_index (\<lambda>val i. val * or_zero (js_index v2 i)) v1"

definition vecScalarMult :: "real \<Rightarrow> real list \<Rightarrow> real list" where
  "vecScalarMult s v = map (\<lambda>val. val * s) v"

definition mix_elem :: "real option \<Rightarrow> real \<Rightarrow> real option \<Rightarrow> real option" where
  \<comment> \<open>\<open>(uVal * val) + ((1 - uVal) * sVal)\<close> where \<open>uVal\<close>, \<open>sVal\<close> may be \<open>undefined\<close>\<close>
  "mix_elem uVal val sVal =
     (case uVal of None \<Rightarrow> None
      | Some u \<Rightarrow> (case sVal of None \<Rightarrow> None
                  | Some s \<Rightarrow> Some ((u * val) + ((1 - u) * s))))"

definition vecMix :: "real list \<Rightarrow> real list \<Rightarrow> real list \<Rightarrow> real option list" where
  "vecMix u h s = map_index (\<lambda>val i. mix_elem (js_index u i) val (js_index s i)) h"

definition gru_elem :: "real option \<Rightarrow> real \<Rightarrow> real option \<Rightarrow> real option" where
  \<comment> \<open>\<open>((1 - z) * h) + (z * n)\<close> where \<open>z\<close>, \<open>n\<close> may be \<open>undefined\<close>\<close>
  "gru_elem zVal h nVal =
     (case zVal of None \<Rightarrow> None
      | Some z \<Rightarrow> (case nVal of None \<Rightarrow> None
                  | Some n \<Rightarrow> Some (((1 - z) * h) + (z * n))))"

section \<open>The cell evaluator (utils/math.ts, calculateModel)\<close>

definition calculateModel :: "ModelType \<Rightarrow> SimulationParams \<Rightarrow> SimulationResult" where
  "calculateModel type params =
     (if type = UGRNN then
        (let sumXH = vecAdd (inputX params) (hiddenH params);
             u_t = vecSigmoid sumXH (biasGate1 params);
             s_t = vecTanh sumXH 0;
             h_t = vecMix u_t (hiddenH params) s_t
         in \<lparr> finalH = h_t, finalC = None, gate1 = u_t, gate2 = [], gate3 = [],
              candidateState = s_t, tanhC = None \<rparr>)
      else if type = GRU then
        (let sumXH = vecAdd (inputX params) (hiddenH params);
             r_t = vecSigmoid sumXH (biasGate1 params);
             z_t = vecSigmoid sumXH (biasGate2 params);
             r_h = vecMult r_t (hiddenH params);
             sum_x_rh = vecAdd (inputX params) r_h;
             n_t = vecTanh sum_x_rh 0;
             h_t = map_index (\<lambda>h i. gru_elem (js_index z_t i) h (js_index n_t i))
                     (hiddenH params)
         in \<lparr> finalH = h_t, finalC = None, gate1 = r_t, gate2 = z_t, gate3 = [],
              candidateState = n_t, tanhC = None \<rparr>)
      else
        (let sumXH = vecAdd (inputX params) (hiddenH params);
             f_t = vecSigmoid sumXH (biasGate1 params);
             i_t = vecSigmoid sumXH (biasGate2 params);
             o_t = vecSigmoid sumXH (biasGate3 params);
             c_tilde = vecTanh sumXH 0;
             prevC = (case cellC params of
                        Some c \<Rightarrow> c
                      | None \<Rightarrow> replicate (length (inputX params)) 0);
             term1 = vecMult f_t prevC;
             term2 = vecMult i_t c_tilde;
             c_t = vecAdd term1 term2;
             tanh_c = vecTanh c_t 0;
             h_t = vecMult o_t tanh_c
         in \<lparr> finalH = map Some h_t, finalC = Some c_t, gate1 = f_t, gate2 = i_t,
              gate3 = o_t, candidateState = c_tilde, tanhC = Some tanh_c \<rparr>))"

section \<open>Changing the dimensionality (components/Controls.tsx, changeDim)\<close>

definition resize :: "nat \<Rightarrow> real list \<Rightarrow> real list" where
  "resize newDim v =
     (if length v = newDim then v
      else if length v > newDim then take newDim v
      else v @ replicate (newDim - length v) 0)"

definition changeDim :: "nat \<Rightarrow> SimulationParams \<Rightarrow> SimulationParams" where
  "changeDim newDim params =
     params\<lparr> vectorSize := newDim,
             inputX := resize newDim (inputX params),
             hiddenH := resize newDim (hiddenH params),
             cellC := Some (case cellC params of
                              Some c \<Rightarrow> resize newDim c
                            | None \<Rightarrow> replicate newDim 0) \<rparr>"

section \<open>The initial parameters (App.tsx)\<close>

definition initial_params :: SimulationParams where
  "initial_params =
     \<lparr> vectorSize = 2, inputX = [1, 0], hiddenH = [0, 0], cellC = Some [0, 0],
       biasGate1 = 0, biasGate2 = 0, biasGate3 = 0 \<rparr>"

section \<open>The step sequencer (components/VisualizerSVG.tsx)\<close>

text \<open>
  Each diagram component keeps an object \<open>steps\<close> from step names to step states, and
  drives it from three places: the click handler of a node (\<open>computeStep\<close>), the 500 ms
  callback that \<open>computeStep\<close> schedules, and the effect that runs when the input vectors
  change. The component is modelled as a record of its \<open>steps\<close> object, the callbacks that
  are scheduled and not yet run (equal delays run in scheduling order), and the number of
  \<open>onComplete\<close> calls made so far; an event is one click or one callback running.
\<close>

datatype StepState = Pending | Active | Computing | Done

datatype Step =
  Concat | Gates | Interp | Add | ResetMult | Candidate | Gating | CellUpdate | OutputCalc

type_synonym Steps = "Step \<rightharpoonup> StepState"

definition ugrnn_initial :: Steps where
  "ugrnn_initial = [Concat \<mapsto> Active, Gates \<mapsto> Pending, Interp \<mapsto> Pending, Add \<mapsto> Pending]"

definition gru_initial :: Steps where
  "gru_initial =
     [Concat \<mapsto> Active, Gates \<mapsto> Pending, ResetMult \<mapsto> Pending, Candidate \<mapsto> Pending,
      Interp \<mapsto> Pending, Add \<mapsto> Pending]"

definition lstm_initial :: Steps where
  "lstm_initial =
     [Concat \<mapsto> Active, Gates \<mapsto> Pending, Gating \<mapsto> Pending, CellUpdate \<mapsto> Pending,
      OutputCalc \<mapsto> Pending]"

fun initial_steps :: "ModelType \<Rightarrow> Steps" where
  "initial_steps UGRNN = ugrnn_initial"
| "initial_steps GRU = gru_initial"
| "initial_steps LSTM = lstm_initial"

text \<open>The updater that the 500 ms callback of \<open>computeStep(step)\<close> applies to \<open>steps\<close>.\<close>

definition ugrnn_finish :: "Step \<Rightarrow> Steps \<Rightarrow> Steps" where
  "ugrnn_finish step prev =
     (let n = prev in
      if step = Concat then n(Concat \<mapsto> Done, Gates \<mapsto> Active)
      else if step = Gates then n(Gates \<mapsto> Done, Interp \<mapsto> Active)
      else if step = Interp then n(Interp \<mapsto> Done, Add \<mapsto> Active)
      else if step = Add then n(Add \<mapsto> Done)
      else n)"

definition gru_finish :: "Step \<Rightarrow> Steps \<Rightarrow> Steps" where
  "gru_finish step prev =
     (let n = prev(step \<mapsto> Done) in
      if step = Concat then n(Gates \<mapsto> Active)
      else if step = Gates then n(ResetMult \<mapsto> Active)
      else if step = ResetMult then n(Candidate \<mapsto> Active)
      else if step = Candidate then n(Interp \<mapsto> Active)
      else if step = Interp then n(Add \<mapsto> Active)
      else n)"

definition lstm_finish :: "Step \<Rightarrow> Steps \<Rightarrow> Steps" where
  "lstm_finish step prev =
     (let n = prev(step \<mapsto> Done) in
      if step = Concat then n(Gates \<mapsto> Active)
      else if step = Gates then n(Gating \<mapsto> Active)
      else if step = Gating then n(CellUpdate \<mapsto> Active)
      else if step = CellUpdate then n(OutputCalc \<mapsto> Active)
      else n)"

fun finish :: "ModelType \<Rightarrow> Step \<Rightarrow> Steps \<Rightarrow> Steps" where
  "finish UGRNN = ugrnn_finish"
| "finish GRU = gru_finish"
| "finish LSTM = lstm_finish"

fun schedules_onComplete :: "ModelType \<Rightarrow> Step \<Rightarrow> bool" where
  \<comment> \<open>the branch of the updater that runs \<open>setTimeout(onComplete, 400)\<close>\<close>
  "schedules_onComplete UGRNN step = (step = Add)"
| "schedules_onComplete GRU step = (step = Add)"
| "schedules_onComplete LSTM step = (step = OutputCalc)"

fun flow :: "ModelType \<Rightarrow> Step list" where
  \<comment> \<open>the steps of a diagram in the order its comments give
     (\<open>concat -> gates -> interp -> final add\<close>), which is the order of its \<open>steps\<close> object\<close>
  "flow UGRNN = [Concat, Gates, Interp, Add]"
| "flow GRU = [Concat, Gates, ResetMult, Candidate, Interp, Add]"
| "flow LSTM = [Concat, Gates, Gating, CellUpdate, OutputCalc]"

definition deps :: "ModelType \<Rightarrow> Step \<Rightarrow> Step list" where
  \<comment> \<open>the steps a step depends on: those before it in the flow\<close>
  "deps t step = takeWhile (\<lambda>x. x \<noteq> step) (flow t)"

record Diagram =
  steps :: Steps
  step_timers :: "Step list"
  complete_timers :: nat
  completed :: nat

definition mount :: "ModelType \<Rightarrow> Diagram" where
  \<comment> \<open>\<open>useState\<close>: a freshly mounted diagram\<close>
  "mount t = \<lparr> steps = initial_steps t, step_timers = [], complete_timers = 0, completed = 0 \<rparr>"

definition node_onClick :: "StepState option \<Rightarrow> 'h option \<Rightarrow> 'h option" where
  \<comment> \<open>\<open>Node\<close>: \<open>onClick={(state === 'active' || onClick) ? onClick : undefined}\<close>\<close>
  "node_onClick state onClick =
     (if state = Some Active \<or> onClick \<noteq> None then onClick else None)"

definition computeStep :: "Step \<Rightarrow> Diagram \<Rightarrow> Diagram" where
  \<comment> \<open>\<open>setSteps(prev => ({ ...prev, [step]: 'computing' })); setTimeout(..., 500)\<close>\<close>
  "computeStep step d =
     d\<lparr> steps := (steps d)(step \<mapsto> Computing), step_timers := step_timers d @ [step] \<rparr>"

definition step_timeout :: "ModelType \<Rightarrow> Diagram \<Rightarrow> Diagram" where
  \<comment> \<open>the oldest 500 ms callback runs\<close>
  "step_timeout t d =
     (case step_timers d of
        [] \<Rightarrow> d
      | step # rest \<Rightarrow>
          d\<lparr> steps := finish t step (steps d), step_timers := rest,
             complete_timers :=
               (if schedules_onComplete t step then complete_timers d + 1
                else complete_timers d) \<rparr>)"

definition complete_timeout :: "Diagram \<Rightarrow> Diagram" where
  \<comment> \<open>a 400 ms callback runs: \<open>onComplete()\<close>\<close>
  "complete_timeout d =
     (if 0 < complete_timers d
      then d\<lparr> complete_timers := complete_timers d - 1, completed := completed d + 1 \<rparr>
      else d)"

definition inputs_changed :: "ModelType \<Rightarrow> Diagram \<Rightarrow> Diagram" where
  \<comment> \<open>the effect on \<open>[params.inputX, params.hiddenH]\<close>: \<open>setSteps({ concat: 'active', ... })\<close>\<close>
  "inputs_changed t d = d\<lparr> steps := initial_steps t \<rparr>"

datatype Event = Click Step | StepTimeout | CompleteTimeout | InputsChanged

fun handle :: "ModelType \<Rightarrow> Diagram \<Rightarrow> Event \<Rightarrow> Diagram" where
  "handle t d (Click step) =
     (if step \<in> set (flow t)
      then (case node_onClick (steps d step) (Some step) of
              Some s \<Rightarrow> computeStep s d
            | None \<Rightarrow> d)
      else d)"
| "handle t d StepTimeout = step_timeout t d"
| "handle t d CompleteTimeout = complete_timeout d"
| "handle t d InputsChanged = inputs_changed t d"

fun run :: "ModelType \<Rightarrow> Diagram \<Rightarrow> Event list \<Rightarrow> Diagram" where
  "run t d [] = d"
| "run t d (e # es) = run t (handle t d e) es"

text \<open>
  A trigger is eligible when its node is \<open>active\<close>; an eligible run is one in which every
  click is on an \<open>active\<close> node and the inputs do not change.
\<close>

fun eligible :: "Diagram \<Rightarrow> Event \<Rightarrow> bool" where
  "eligible d (Click step) = (steps d step = Some Active)"
| "eligible d StepTimeout = True"
| "eligible d CompleteTimeout = True"
| "eligible d InputsChanged = False"

fun eligible_run :: "ModelType \<Rightarrow> Diagram \<Rightarrow> Event list \<Rightarrow> bool" where
  "eligible_run t d [] = True"
| "eligible_run t d (e # es) = (eligible d e \<and> eligible_run t (handle t d e) es)"

definition resolved :: "ModelType \<Rightarrow> Diagram \<Rightarrow> bool" where
  \<comment> \<open>every step of the diagram is \<open>done\<close>\<close>
  "resolved t d = list_all (\<lambda>s. steps d s = Some Done) (flow t)"

text \<open>
  The states an eligible run can reach: the steps before position \<open>k\<close> of the flow are
  \<open>done\<close>, the step at \<open>k\<close> is \<open>active\<close> or \<open>computing\<close>, the later ones are \<open>pending\<close>; a
  500 ms callback is scheduled exactly for a \<open>computing\<close> step, and \<open>onComplete\<close> has been
  scheduled once exactly when \<open>k\<close> is past the last step.
\<close>

definition chain_state :: "nat \<Rightarrow> StepState \<Rightarrow> nat \<Rightarrow> StepState" where
  "chain_state k c i = (if i < k then Done else if i = k then c else Pending)"

definition chain_inv :: "ModelType \<Rightarrow> Diagram \<Rightarrow> bool" where
  "chain_inv t d \<longleftrightarrow>
     (\<exists>k c. k \<le> length (flow t) \<and> (c = Active \<or> c = Computing) \<and>
        (\<forall>i < length (flow t). steps d (flow t ! i) = Some (chain_state k c i)) \<and>
        step_timers d = (if k < length (flow t) \<and> c = Computing then [flow t ! k] else []) \<and>
        complete_timers d + completed d = (if k = length (flow t) then 1 else 0))"

section \<open>The evaluator in binary64 arithmetic (utils/math.ts)\<close>

text \<open>
  The numbers of the source are IEEE-754 binary64 values. Where the rounding decides a
  property, the evaluator is also given as the source computes it: a number is NaN, an
  infinity or a finite value; every arithmetic operation returns the exact result rounded
  to the nearest binary64 value, ties to even, and overflows to an infinity. A negative
  zero is not told apart from zero; the evaluator never divides by a zero.
\<close>

datatype js_number = NaN | NegInf | Num real | PosInf

definition round_half_even :: "real \<Rightarrow> int" where
  \<comment> \<open>the nearest integer, a tie going to the even one\<close>
  "round_half_even y =
     (if y - of_int \<lfloor>y\<rfloor> < 1 / 2 then \<lfloor>y\<rfloor>
      else if 1 / 2 < y - of_int \<lfloor>y\<rfloor> then \<lfloor>y\<rfloor> + 1
      else if even \<lfloor>y\<rfloor> then \<lfloor>y\<rfloor> else \<lfloor>y\<rfloor> + 1)"

definition ulp :: "real \<Rightarrow> real" where
  \<comment> \<open>the spacing of binary64 values at the magnitude \<open>x > 0\<close>: 53 significant bits,
     least exponent -1022 (below it the subnormal spacing \<open>2^-1074\<close>)\<close>
  "ulp x = 2 powi (max \<lfloor>log 2 x\<rfloor> (- 1022) - 52)"

definition round_magnitude :: "real \<Rightarrow> js_number" where
  \<comment> \<open>rounding of a magnitude \<open>x \<ge> 0\<close>; from \<open>2^1024\<close> on the result is \<open>Infinity\<close>\<close>
  "round_magnitude x =
     (if x = 0 then Num 0
      else (let r = of_int (round_half_even (x / ulp x)) * ulp x
            in if 2 ^ 1024 \<le> r then PosInf else Num r))"

fun neg64 :: "js_number \<Rightarrow> js_number" where
  "neg64 NaN = NaN"
| "neg64 NegInf = PosInf"
| "neg64 (Num x) = Num (- x)"
| "neg64 PosInf = NegInf"

definition round64 :: "real \<Rightarrow> js_number" where
  "round64 x = (if x < 0 then neg64 (round_magnitude (- x)) else round_magnitude x)"

fun add64 :: "js_number \<Rightarrow> js_number \<Rightarrow> js_number" where
  "add64 (Num x) (Num y) = round64 (x + y)"
| "add64 NaN b = NaN"
| "add64 a NaN = NaN"
| "add64 PosInf NegInf = NaN"
| "add64 NegInf PosInf = NaN"
| "add64 PosInf b = PosInf"
| "add64 a PosInf = PosInf"
| "add64 NegInf b = NegInf"
| "add64 a NegInf = NegInf"

definition sub64 :: "js_number \<Rightarrow> js_number \<Rightarrow> js_number" where
  "sub64 a b = add64 a (neg64 b)"

fun mul64 :: "js_number \<Rightarrow> js_number \<Rightarrow> js_number" where
  "mul64 (Num x) (Num y) = round64 (x * y)"
| "mul64 NaN b = NaN"
| "mul64 a NaN = NaN"
| "mul64 PosInf (Num y) = (if y = 0 then NaN else if 0 < y then PosInf else NegInf)"
| "mul64 NegInf (Num y) = (if y = 0 then NaN else if 0 < y then NegInf else PosInf)"
| "mul64 (Num x) PosInf = (if x = 0 then NaN else if 0 < x then PosInf else NegInf)"
| "mul64 (Num x) NegInf = (if x = 0 then NaN else if 0 < x then NegInf else PosInf)"
| "mul64 PosInf PosInf = PosInf"
| "mul64 NegInf NegInf = PosInf"
| "mul64 PosInf NegInf = NegInf"
| "mul64 NegInf PosInf = NegInf"

fun div64 :: "js_number \<Rightarrow> js_number \<Rightarrow> js_number" where
  "div64 (Num x) (Num y) =
     (if y = 0 then (if x = 0 then NaN else if 0 < x then PosInf else NegInf)
      else round64 (x / y))"
| "div64 NaN b = NaN"
| "div64 a NaN = NaN"
| "div64 (Num x) PosInf = Num 0"
| "div64 (Num x) NegInf = Num 0"
| "div64 PosInf (Num y) = (if 0 \<le> y then PosInf else NegInf)"
| "div64 NegInf (Num y) = (if 0 \<le> y then NegInf else PosInf)"
| "div64 PosInf b = NaN"
| "div64 NegInf b = NaN"

text \<open>
  ECMAScript leaves the accuracy of \<open>Math.exp\<close> and \<open>Math.tanh\<close> to the implementation,
  so the evaluator takes them as parameters \<open>E\<close> and \<open>T\<close>. \<open>math_exp\<close> and \<open>math_tanh\<close> are
  the correctly rounded ones.
\<close>

fun math_exp :: "js_number \<Rightarrow> js_number" where
  "math_exp NaN = NaN"
| "math_exp NegInf = Num 0"
| "math_exp (Num x) = round64 (exp x)"
| "math_exp PosInf = PosInf"

fun math_tanh :: "js_number \<Rightarrow> js_number" where
  "math_tanh NaN = NaN"
| "math_tanh NegInf = Num (- 1)"
| "math_tanh (Num x) = round64 (tanh x)"
| "math_tanh PosInf = Num 1"

fun or_zero64 :: "js_number option \<Rightarrow> js_number" where
  \<comment> \<open>\<open>a || 0\<close>: \<open>undefined\<close>, \<open>NaN\<close> and \<open>0\<close> are falsy\<close>
  "or_zero64 None = Num 0"
| "or_zero64 (Some NaN) = Num 0"
| "or_zero64 (Some (Num x)) = (if x = 0 then Num 0 else Num x)"
| "or_zero64 (Some a) = a"

fun to_number :: "js_number option \<Rightarrow> js_number" where
  \<comment> \<open>an operand of arithmetic: \<open>undefined\<close> becomes \<open>NaN\<close>\<close>
  "to_number None = NaN"
| "to_number (Some a) = a"

definition vecSigmoid64 ::
  "(js_number \<Rightarrow> js_number) \<Rightarrow> js_number list \<Rightarrow> js_number \<Rightarrow> js_number list" where
  "vecSigmoid64 E v bias =
     map (\<lambda>x. div64 (Num 1) (add64 (Num 1) (E (neg64 (add64 x bias))))) v"

definition vecTanh64 ::
  "(js_number \<Rightarrow> js_number) \<Rightarrow> js_number list \<Rightarrow> js_number \<Rightarrow> js_number list" where
  "vecTanh64 T v bias = map (\<lambda>x. T (add64 x bias)) v"

definition vecAdd64 :: "js_number list \<Rightarrow> js_number list \<Rightarrow> js_number list" where
  "vecAdd64 v1 v2 = map_index (\<lambda>val i. add64 val (or_zero64 (js_index v2 i))) v1"

definition vecMult64 :: "js_number list \<Rightarrow> js_number list \<Rightarrow> js_number list" where
  "vecMult64 v1 v2 = map_index (\<lambda>val i. mul64 val (or_zero64 (js_index v2 i))) v1"

definition vecMix64 ::
  "js_number list \<Rightarrow> js_number list \<Rightarrow> js_number list \<Rightarrow> js_number list" where
  "vecMix64 u h s =
     map_index (\<lambda>val i.
        (let uVal = to_number (js_index u i); sVal = to_number (js_index s i)
         in add64 (mul64 uVal val) (mul64 (sub64 (Num 1) uVal) sVal))) h"

record SimulationResult64 =
  finalH64 :: "js_number list"
  finalC64 :: "js_number list option"
  gate1_64 :: "js_number list"
  gate2_64 :: "js_number list"
  gate3_64 :: "js_number list"
  candidateState64 :: "js_number list"
  tanhC64 :: "js_number list option"

definition calculateModel64 ::
  "(js_number \<Rightarrow> js_number) \<Rightarrow> (js_number \<Rightarrow> js_number) \<Rightarrow>
   ModelType \<Rightarrow> SimulationParams \<Rightarrow> SimulationResult64" where
  "calculateModel64 E T type params =
     (let inputX = map Num (inputX params);
          hiddenH = map Num (hiddenH params);
          cellC = map_option (map Num) (cellC params);
          biasGate1 = Num (biasGate1 params);
          biasGate2 = Num (biasGate2 params);
          biasGate3 = Num (biasGate3 params)
      in
      if type = UGRNN then
        (let sumXH = vecAdd64 inputX hiddenH;
             u_t = vecSigmoid64 E sumXH biasGate1;
             s_t = vecTanh64 T sumXH (Num 0);
             h_t = vecMix64 u_t hiddenH s_t
         in \<lparr> finalH64 = h_t, finalC64 = None, gate1_64 = u_t, gate2_64 = [],
              gate3_64 = [], candidateState64 = s_t, tanhC64 = None \<rparr>)
      else if type = GRU then
        (let sumXH = vecAdd64 inputX hiddenH;
             r_t = vecSigmoid64 E sumXH biasGate1;
             z_t = vecSigmoid64 E sumXH biasGate2;
             r_h = vecMult64 r_t hiddenH;
             sum_x_rh = vecAdd64 inputX r_h;
             n_t = vecTanh64 T sum_x_rh (Num 0);
             h_t = map_index (\<lambda>h i.
                     (let z = to_number (js_index z_t i); n = to_number (js_index n_t i)
                      in add64 (mul64 (sub64 (Num 1) z) h) (mul64 z n))) hiddenH
         in \<lparr> finalH64 = h_t, finalC64 = None, gate1_64 = r_t, gate2_64 = z_t,
              gate3_64 = [], candidateState64 = n_t, tanhC64 = None \<rparr>)
      else
        (let sumXH = vecAdd64 inputX hiddenH;
             f_t = vecSigmoid64 E sumXH biasGate1;
             i_t = vecSigmoid64 E sumXH biasGate2;
             o_t = vecSigmoid64 E sumXH biasGate3;
             c_tilde = vecTanh64 T sumXH (Num 0);
             prevC = (case cellC of
                        Some c \<Rightarrow> c
                      | None \<Rightarrow> replicate (length inputX) (Num 0));
             term1 = vecMult64 f_t prevC;
             term2 = vecMult64 i_t c_tilde;
             c_t = vecAdd64 term1 term2;
             tanh_c = vecTanh64 T c_t (Num 0);
             h_t = vecMult64 o_t tanh_c
         in \<lparr> finalH64 = h_t, finalC64 = Some c_t, gate1_64 = f_t, gate2_64 = i_t,
              gate3_64 = o_t, candidateState64 = c_tilde, tanhC64 = Some tanh_c \<rparr>))"

text \<open>
  The closed ranges, and what is assumed of an implementation of \<open>Math.exp\<close> (for an
  argument that is not NaN, a number that is not negative, or \<open>Infinity\<close>) and of
  \<open>Math.tanh\<close> (for an argument that is not NaN, a number between -1 and 1).
\<close>

definition in_closed_unit :: "js_number \<Rightarrow> bool" where
  "in_closed_unit a = (case a of Num r \<Rightarrow> 0 \<le> r \<and> r \<le> 1 | _ \<Rightarrow> False)"

definition in_closed_sym :: "js_number \<Rightarrow> bool" where
  "in_closed_sym a = (case a of Num r \<Rightarrow> - 1 \<le> r \<and> r \<le> 1 | _ \<Rightarrow> False)"

definition exp_impl :: "(js_number \<Rightarrow> js_number) \<Rightarrow> bool" where
  "exp_impl E \<longleftrightarrow> (\<forall>a. a \<noteq> NaN \<longrightarrow> E a = PosInf \<or> (\<exists>r. E a = Num r \<and> 0 \<le> r))"

definition tanh_impl :: "(js_number \<Rightarrow> js_number) \<Rightarrow> bool" where
  "tanh_impl T \<longleftrightarrow> (\<forall>a. a \<noteq> NaN \<longrightarrow> in_closed_sym (T a))"

section \<open>Vector operations as the specification words them\<close>

definition spec_pad :: "nat \<Rightarrow> real list \<Rightarrow> real list" where
  \<comment> \<open>a vector extended with zeros up to length \<open>n\<close>\<close>
  "spec_pad n v = v @ replicate (n - length v) 0"

definition spec_add :: "real list \<Rightarrow> real list \<Rightarrow> real list" where
  \<comment> \<open>elementwise sum over the longer length, the shorter operand padded with 0\<close>
  "spec_add v1 v2 =
     (let n = max (length v1) (length v2)
      in map (\<lambda>(a, b). a + b) (zip (spec_pad n v1) (spec_pad n v2)))"

definition spec_multiply :: "real list \<Rightarrow> real list \<Rightarrow> real list" where
  \<comment> \<open>elementwise product over the longer length, the shorter operand padded with 0\<close>
  "spec_multiply v1 v2 =
     (let n = max (length v1) (length v2)
      in map (\<lambda>(a, b). a * b) (zip (spec_pad n v1) (spec_pad n v2)))"

definition spec_sigmoid :: "real list \<Rightarrow> real \<Rightarrow> real list" where
  \<comment> \<open>elementwise \<open>1 / (1 + e^-(x + bias))\<close>\<close>
  "spec_sigmoid v bias = map (\<lambda>x. 1 / (1 + exp (- (x + bias)))) v"

definition spec_tanh :: "real list \<Rightarrow> real \<Rightarrow> real list" where
  \<comment> \<open>elementwise hyperbolic tangent of \<open>x + bias\<close>\<close>
  "spec_tanh v bias = map (\<lambda>x. tanh (x + bias)) v"

definition spec_interpolate :: "real list \<Rightarrow> real list \<Rightarrow> real list \<Rightarrow> real list" where
  \<comment> \<open>elementwise \<open>gate\<cdot>a + (1 - gate)\<cdot>b\<close>\<close>
  "spec_interpolate gate a b =
     map (\<lambda>(g, x, y). g * x + (1 - g) * y) (zip gate (zip a b))"

definition spec_one_minus :: "real list \<Rightarrow> real list" where
  \<comment> \<open>elementwise \<open>1 - x\<close>\<close>
  "spec_one_minus v = map (\<lambda>x. 1 - x) v"

definition spec_mix :: "SimulationParams \<Rightarrow> real list" where
  \<comment> \<open>\<open>mix = inputX + hiddenPrev\<close>\<close>
  "spec_mix p = spec_add (inputX p) (hiddenH p)"

definition spec_lstm_cell :: "SimulationParams \<Rightarrow> real list \<Rightarrow> real list" where
  \<comment> \<open>\<open>cell' = f*cellPrev + i*c~\<close> with \<open>f = sigmoid(mix, bias1)\<close>,
     \<open>i = sigmoid(mix, bias2)\<close> and \<open>c~ = tanh(mix, 0)\<close>\<close>
  "spec_lstm_cell p cellPrev =
     spec_add (spec_multiply (spec_sigmoid (spec_mix p) (biasGate1 p)) cellPrev)
       (spec_multiply (spec_sigmoid (spec_mix p) (biasGate2 p)) (spec_tanh (spec_mix p) 0))"

definition spec_gru_candidate :: "SimulationParams \<Rightarrow> real list" where
  \<comment> \<open>\<open>n = tanh(inputX + (r * hiddenPrev), 0)\<close> with \<open>r = sigmoid(mix, bias1)\<close>\<close>
  "spec_gru_candidate p =
     spec_tanh (spec_add (inputX p)
                  (spec_multiply (spec_sigmoid (spec_mix p) (biasGate1 p)) (hiddenH p))) 0"

section \<open>Elementwise addition and multiplication\<close>

lemma length_map_index [simp]: "length (map_index f v) = length v"
  by (simp add: map_index_def)

lemma nth_map_index [simp]: "i < length v \<Longrightarrow> map_index f v ! i = f (v ! i) i"
  by (simp add: map_index_def)

lemma length_vecAdd [simp]: "length (vecAdd v1 v2) = length v1"
  by (simp add: vecAdd_def)

lemma length_vecMult [simp]: "length (vecMult v1 v2) = length v1"
  by (simp add: vecMult_def)

lemma nth_vecAdd:
  "i < length v1 \<Longrightarrow> vecAdd v1 v2 ! i = v1 ! i + (if i < length v2 then v2 ! i else 0)"
  by (simp add: vecAdd_def js_index_def or_zero_def)

lemma nth_vecMult:
  "i < length v1 \<Longrightarrow> vecMult v1 v2 ! i = v1 ! i * (if i < length v2 then v2 ! i else 0)"
  by (simp add: vecMult_def js_index_def or_zero_def)

lemma length_spec_pad [simp]: "length (spec_pad n v) = max n (length v)"
  by (simp add: spec_pad_def)

lemma nth_spec_pad:
  "i < max n (length v) \<Longrightarrow> spec_pad n v ! i = (if i < length v then v ! i else 0)"
  by (simp add: spec_pad_def nth_append)

lemma length_spec_add [simp]: "length (spec_add v1 v2) = max (length v1) (length v2)"
  by (simp add: spec_add_def Let_def)

lemma length_spec_multiply [simp]:
  "length (spec_multiply v1 v2) = max (length v1) (length v2)"
  by (simp add: spec_multiply_def Let_def)

lemma nth_spec_add:
  "i < max (length v1) (length v2) \<Longrightarrow>
   spec_add v1 v2 ! i =
     (if i < length v1 then v1 ! i else 0) + (if i < length v2 then v2 ! i else 0)"
  by (simp add: spec_add_def Let_def nth_spec_pad)

lemma nth_spec_multiply:
  "i < max (length v1) (length v2) \<Longrightarrow>
   spec_multiply v1 v2 ! i =
     (if i < length v1 then v1 ! i else 0) * (if i < length v2 then v2 ! i else 0)"
  by (simp add: spec_multiply_def Let_def nth_spec_pad)

lemma vecAdd_eq_spec_add:
  "length v2 \<le> length v1 \<Longrightarrow> vecAdd v1 v2 = spec_add v1 v2"
  by (rule nth_equalityI) (simp_all add: nth_vecAdd nth_spec_add max_def)

lemma vecMult_eq_spec_multiply:
  "length v2 \<le> length v1 \<Longrightarrow> vecMult v1 v2 = spec_multiply v1 v2"
  by (rule nth_equalityI) (simp_all add: nth_vecMult nth_spec_multiply max_def)

text \<open>
  C7 (as stated, refuted): with the first operand shorter, \<open>add\<close> and \<open>multiply\<close> of the
  source return a vector of the first operand's length, not the zero-padded result over
  the longer length.
\<close>

theorem C7_counterexample:
  "vecAdd [1] [2, 3] = [3] \<and> spec_add [1] [2, 3] = [3, 3] \<and>
   vecMult [1] [2, 3] = [2] \<and> spec_multiply [1] [2, 3] = [2, 0]"
  by (simp add: vecAdd_def vecMult_def spec_add_def spec_multiply_def spec_pad_def
      map_index_def js_index_def or_zero_def)

text \<open>
  C7 (amended): \<open>add(v1, v2)\<close> and \<open>multiply(v1, v2)\<close> are elementwise over the length of
  the first operand; element \<open>i\<close> combines \<open>v1[i]\<close> with \<open>v2[i]\<close>, a missing element of the
  second operand read as 0. Whenever the second operand is not longer than the first,
  this is the zero-padded operation over the longer length.
\<close>

theorem C7_vecAdd_vecMult_first_operand:
  "length (vecAdd v1 v2) = length v1 \<and> length (vecMult v1 v2) = length v1 \<and>
   (\<forall>i < length v1.
      vecAdd v1 v2 ! i = v1 ! i + (if i < length v2 then v2 ! i else 0) \<and>
      vecMult v1 v2 ! i = v1 ! i * (if i < length v2 then v2 ! i else 0)) \<and>
   (length v2 \<le> length v1 \<longrightarrow>
      vecAdd v1 v2 = spec_add v1 v2 \<and> vecMult v1 v2 = spec_multiply v1 v2)"
  by (simp add: nth_vecAdd nth_vecMult vecAdd_eq_spec_add vecMult_eq_spec_multiply)

theorem C7_witness:
  "length [2, 3 :: real] \<le> length [1, 5, 7 :: real] \<and>
   vecAdd [1, 5, 7] [2, 3] = [3, 8, 7] \<and> spec_add [1, 5, 7] [2, 3] = [3, 8, 7] \<and>
   vecMult [1, 5, 7] [2, 3] = [2, 15, 0] \<and> spec_multiply [1, 5, 7] [2, 3] = [2, 15, 0]"
  using C7_vecAdd_vecMult_first_operand [of "[1, 5, 7]" "[2, 3]"]
  by (simp add: spec_add_def spec_multiply_def spec_pad_def)

section \<open>Dimensionality changes\<close>

lemma length_resize [simp]: "length (resize d v) = d"
  by (simp add: resize_def)

lemma resize_back:
  "length v = d \<Longrightarrow> resize d (resize d' v) = take d' v @ replicate (d - d') 0"
  by (simp add: resize_def)

lemma resize_back_ge:
  "length v = d \<Longrightarrow> d \<le> d' \<Longrightarrow> resize d (resize d' v) = v"
  by (simp add: resize_def)

lemma resize_replicate: "resize d (replicate d' 0) = replicate d 0"
  by (auto simp add: resize_def replicate_add [symmetric] simp del: replicate_add)

lemma take_pad_eq_iff: "take d' v @ r = v \<longleftrightarrow> drop d' v = r"
proof -
  have "take d' v @ r = take d' v @ drop d' v \<longleftrightarrow> r = drop d' v"
    by (rule same_append_eq)
  then show ?thesis by auto
qed

text \<open>
  C8 (as stated, refuted): resizing the initial 2-dimensional input \<open>[1, 2]\<close> to
  dimensionality 1 and back to 2 gives \<open>[1, 0]\<close>; index 1 was present and is not recovered.
\<close>

theorem C8_counterexample:
  "inputX (changeDim 2 (changeDim 1
     \<lparr> vectorSize = 2, inputX = [1, 2], hiddenH = [0, 0], cellC = Some [0, 0],
       biasGate1 = 0, biasGate2 = 0, biasGate3 = 0 \<rparr>)) = [1, 0] \<and>
   [1, 2 :: real] ! 1 \<noteq> [1, 0] ! 1"
  by (simp add: changeDim_def resize_def)

text \<open>
  C8 (amended): for parameters whose vectors all have the dimensionality \<open>d\<close>, resizing to
  \<open>d'\<close> and back to \<open>d\<close> keeps the first \<open>min d d'\<close> elements of every vector field and
  puts 0 at every index from \<open>d'\<close> on (an absent cell vector becomes all zeros). A vector
  field is recovered entirely exactly when its elements from index \<open>d'\<close> on were already
  0; in particular every field is recovered whenever \<open>d \<le> d'\<close>.
\<close>

theorem C8_resize_round_trip:
  assumes "well_formed p"
  shows "inputX (changeDim (vectorSize p) (changeDim d' p)) =
           take d' (inputX p) @ replicate (vectorSize p - d') 0 \<and>
         hiddenH (changeDim (vectorSize p) (changeDim d' p)) =
           take d' (hiddenH p) @ replicate (vectorSize p - d') 0 \<and>
         cellC (changeDim (vectorSize p) (changeDim d' p)) =
           Some (case cellC p of
                   Some c \<Rightarrow> take d' c @ replicate (vectorSize p - d') 0
                 | None \<Rightarrow> replicate (vectorSize p) 0) \<and>
         (vectorSize p \<le> d' \<longrightarrow>
            inputX (changeDim (vectorSize p) (changeDim d' p)) = inputX p \<and>
            hiddenH (changeDim (vectorSize p) (changeDim d' p)) = hiddenH p \<and>
            (\<forall>c. cellC p = Some c \<longrightarrow>
               cellC (changeDim (vectorSize p) (changeDim d' p)) = Some c)) \<and>
         (inputX (changeDim (vectorSize p) (changeDim d' p)) = inputX p \<longleftrightarrow>
            drop d' (inputX p) = replicate (vectorSize p - d') 0) \<and>
         (hiddenH (changeDim (vectorSize p) (changeDim d' p)) = hiddenH p \<longleftrightarrow>
            drop d' (hiddenH p) = replicate (vectorSize p - d') 0) \<and>
         (\<forall>c. cellC p = Some c \<longrightarrow>
            (cellC (changeDim (vectorSize p) (changeDim d' p)) = Some c \<longleftrightarrow>
               drop d' c = replicate (vectorSize p - d') 0))"
proof -
  have rt: "inputX (changeDim (vectorSize p) (changeDim d' p)) =
              resize (vectorSize p) (resize d' (inputX p))"
    "hiddenH (changeDim (vectorSize p) (changeDim d' p)) =
              resize (vectorSize p) (resize d' (hiddenH p))"
    "\<And>c. cellC p = Some c \<Longrightarrow> cellC (changeDim (vectorSize p) (changeDim d' p)) =
              Some (resize (vectorSize p) (resize d' c))"
    "cellC p = None \<Longrightarrow> cellC (changeDim (vectorSize p) (changeDim d' p)) =
              Some (replicate (vectorSize p) 0)"
    by (simp_all add: changeDim_def resize_replicate)
  have len: "length (inputX p) = vectorSize p" "length (hiddenH p) = vectorSize p"
    "\<And>c. cellC p = Some c \<Longrightarrow> length c = vectorSize p"
    using assms by (simp_all add: well_formed_def)
  show ?thesis
  proof (cases "cellC p")
    case None
    then show ?thesis
      using len(1,2) by (simp add: rt resize_back resize_back_ge take_pad_eq_iff)
  next
    case (Some c)
    then show ?thesis
      using len(1,2) len(3) [OF Some]
      by (simp add: rt resize_back resize_back_ge take_pad_eq_iff)
  qed
qed

theorem C8_witness:
  "well_formed initial_params \<and>
   inputX (changeDim (vectorSize initial_params) (changeDim 1 initial_params)) = [1, 0] \<and>
   drop 1 (inputX initial_params) = replicate (vectorSize initial_params - 1) 0 \<and>
   inputX (changeDim (vectorSize initial_params) (changeDim 1 initial_params)) =
     inputX initial_params \<and>
   hiddenH (changeDim (vectorSize initial_params) (changeDim 3 initial_params)) =
     hiddenH initial_params"
  using C8_resize_round_trip [of initial_params 1] C8_resize_round_trip [of initial_params 3]
  by (simp add: well_formed_def initial_params_def)

section \<open>The cell evaluator against the formulas of the specification\<close>

lemma vecSigmoid_spec: "vecSigmoid v b = spec_sigmoid v b"
  by (simp add: vecSigmoid_def spec_sigmoid_def)

lemma vecTanh_spec: "vecTanh v b = spec_tanh v b"
  by (simp add: vecTanh_def spec_tanh_def)

lemma length_vecSigmoid [simp]: "length (vecSigmoid v b) = length v"
  by (simp add: vecSigmoid_def)

lemma length_vecTanh [simp]: "length (vecTanh v b) = length v"
  by (simp add: vecTanh_def)

lemma length_spec_sigmoid [simp]: "length (spec_sigmoid v b) = length v"
  by (simp add: spec_sigmoid_def)

lemma length_spec_tanh [simp]: "length (spec_tanh v b) = length v"
  by (simp add: spec_tanh_def)

lemma length_spec_one_minus [simp]: "length (spec_one_minus v) = length v"
  by (simp add: spec_one_minus_def)

lemma vecMix_spec:
  assumes "length u = length h" and "length s = length h"
  shows "vecMix u h s = map Some (spec_interpolate u h s)"
  using assms
  by (intro nth_equalityI)
     (simp_all add: vecMix_def spec_interpolate_def js_index_def mix_elem_def)

lemma gru_blend_spec:
  assumes "length z = length h" and "length n = length h"
  shows "map_index (\<lambda>x i. gru_elem (js_index z i) x (js_index n i)) h =
         map Some (spec_add (spec_multiply (spec_one_minus z) h) (spec_multiply z n))"
  using assms
  by (intro nth_equalityI)
     (simp_all add: js_index_def gru_elem_def nth_spec_add nth_spec_multiply
        spec_one_minus_def)

text \<open>
  C3: for parameters whose vectors have one length and whose cell vector is present,
  \<open>calculateModel LSTM\<close> returns the three gates as sigmoids of \<open>inputX + hiddenPrev\<close> with
  their biases, the candidate as its tanh with bias 0, the new cell
  \<open>gate1*cellPrev + gate2*candidateState\<close>, \<open>tanhCell\<close> as the tanh of the new cell and the
  new hidden state \<open>gate3 * tanh(new cell)\<close>.
\<close>

theorem C3_lstm_formulas:
  assumes "length (hiddenH p) = length (inputX p)"
    and "cellC p = Some c" and "length c = length (inputX p)"
  shows "gate1 (calculateModel LSTM p) = spec_sigmoid (spec_mix p) (biasGate1 p) \<and>
         gate2 (calculateModel LSTM p) = spec_sigmoid (spec_mix p) (biasGate2 p) \<and>
         gate3 (calculateModel LSTM p) = spec_sigmoid (spec_mix p) (biasGate3 p) \<and>
         candidateState (calculateModel LSTM p) = spec_tanh (spec_mix p) 0 \<and>
         finalC (calculateModel LSTM p) = Some (spec_lstm_cell p c) \<and>
         tanhC (calculateModel LSTM p) = Some (spec_tanh (spec_lstm_cell p c) 0) \<and>
         finalH (calculateModel LSTM p) =
           map Some (spec_multiply (gate3 (calculateModel LSTM p))
                       (spec_tanh (spec_lstm_cell p c) 0))"
  using assms
  by (simp add: calculateModel_def Let_def vecSigmoid_spec vecTanh_spec
      vecAdd_eq_spec_add vecMult_eq_spec_multiply spec_mix_def spec_lstm_cell_def)

theorem C3_witness:
  "length (hiddenH initial_params) = length (inputX initial_params) \<and>
   cellC initial_params = Some [0, 0] \<and>
   gate1 (calculateModel LSTM initial_params) = [1 / (1 + exp (- 1)), 1 / 2] \<and>
   candidateState (calculateModel LSTM initial_params) = [tanh 1, 0] \<and>
   finalC (calculateModel LSTM initial_params) = Some [1 / (1 + exp (- 1)) * tanh 1, 0]"
proof -
  have h: "length (hiddenH initial_params) = length (inputX initial_params)"
    and c: "cellC initial_params = Some [0, 0]"
    and l: "length [0, 0 :: real] = length (inputX initial_params)"
    by (simp_all add: initial_params_def)
  have mix: "spec_mix initial_params = [1, 0]"
    by (simp add: spec_mix_def initial_params_def spec_add_def spec_pad_def)
  have cell: "spec_lstm_cell initial_params [0, 0] = [1 / (1 + exp (- 1)) * tanh 1, 0]"
    unfolding spec_lstm_cell_def mix
    by (simp add: initial_params_def spec_sigmoid_def spec_tanh_def spec_add_def
        spec_multiply_def spec_pad_def Let_def)
  have b: "biasGate1 initial_params = 0" by (simp add: initial_params_def)
  show ?thesis
    using C3_lstm_formulas [OF h c l] h c
    by (simp add: mix cell b spec_sigmoid_def spec_tanh_def)
qed

text \<open>
  C4: for parameters whose vectors have one length, \<open>calculateModel GRU\<close> returns the
  reset gate \<open>gate1\<close> and the update gate \<open>gate2\<close> as sigmoids of \<open>inputX + hiddenPrev\<close>, the
  candidate as \<open>tanh(inputX + gate1*hiddenPrev)\<close> with bias 0, and the new hidden state
  \<open>(1 - gate2)*hiddenPrev + gate2*candidateState\<close>.
\<close>

theorem C4_gru_formulas:
  assumes "length (hiddenH p) = length (inputX p)"
  shows "gate1 (calculateModel GRU p) = spec_sigmoid (spec_mix p) (biasGate1 p) \<and>
         gate2 (calculateModel GRU p) = spec_sigmoid (spec_mix p) (biasGate2 p) \<and>
         candidateState (calculateModel GRU p) = spec_gru_candidate p \<and>
         finalH (calculateModel GRU p) =
           map Some (spec_add
                       (spec_multiply (spec_one_minus (gate2 (calculateModel GRU p)))
                          (hiddenH p))
                       (spec_multiply (gate2 (calculateModel GRU p))
                          (candidateState (calculateModel GRU p))))"
  using assms
  by (simp add: calculateModel_def Let_def vecSigmoid_spec vecTanh_spec
      vecAdd_eq_spec_add vecMult_eq_spec_multiply gru_blend_spec spec_mix_def
      spec_gru_candidate_def)

theorem C4_witness:
  "length (hiddenH (initial_params\<lparr>hiddenH := [2, 3]\<rparr>)) =
     length (inputX (initial_params\<lparr>hiddenH := [2, 3]\<rparr>)) \<and>
   gate1 (calculateModel GRU (initial_params\<lparr>hiddenH := [2, 3]\<rparr>)) =
     [1 / (1 + exp (- 3)), 1 / (1 + exp (- 3))] \<and>
   candidateState (calculateModel GRU (initial_params\<lparr>hiddenH := [2, 3]\<rparr>)) =
     [tanh (1 + 1 / (1 + exp (- 3)) * 2), tanh (1 / (1 + exp (- 3)) * 3)]"
  using C4_gru_formulas [of "initial_params\<lparr>hiddenH := [2, 3]\<rparr>"]
  by (simp add: initial_params_def spec_sigmoid_def spec_tanh_def spec_add_def
      spec_multiply_def spec_pad_def spec_mix_def spec_gru_candidate_def)

subsection \<open>The update-gate cell and its worked example\<close>

lemma exp_1_upper: "exp (1::real) \<le> 2.74"
proof -
  have sq: "\<And>x c d :: real. exp x \<le> c \<Longrightarrow> c\<^sup>2 \<le> d \<Longrightarrow> exp (2 * x) \<le> d"
  proof -
    fix x c d :: real
    assume a: "exp x \<le> c" and b: "c\<^sup>2 \<le> d"
    have "exp (2 * x) = (exp x)\<^sup>2" by (rule exp_double)
    also have "\<dots> \<le> c\<^sup>2" using a by (intro power_mono) simp_all
    finally show "exp (2 * x) \<le> d" using b by linarith
  qed
  have "exp (1 / 128 :: real) \<le> 1 + 1 / 128 + (1 / 128)\<^sup>2"
    by (rule exp_bound) simp_all
  then have e0: "exp (1 / 128 :: real) \<le> 1.007874" by (simp add: power2_eq_square)
  have e1: "exp (1 / 64 :: real) \<le> 1.01581"
    using sq [OF e0, of "1.01581"] by (simp add: power2_eq_square)
  have e2: "exp (1 / 32 :: real) \<le> 1.03187"
    using sq [OF e1, of "1.03187"] by (simp add: power2_eq_square)
  have e3: "exp (1 / 16 :: real) \<le> 1.064756"
    using sq [OF e2, of "1.064756"] by (simp add: power2_eq_square)
  have e4: "exp (1 / 8 :: real) \<le> 1.133706"
    using sq [OF e3, of "1.133706"] by (simp add: power2_eq_square)
  have e5: "exp (1 / 4 :: real) \<le> 1.28529"
    using sq [OF e4, of "1.28529"] by (simp add: power2_eq_square)
  have e6: "exp (1 / 2 :: real) \<le> 1.651971"
    using sq [OF e5, of "1.651971"] by (simp add: power2_eq_square)
  have e7: "exp (1 :: real) \<le> 2.729009"
    using sq [OF e6, of "2.729009"] by (simp add: power2_eq_square)
  then show ?thesis by simp
qed

lemma exp_1_lower: "2.68 \<le> exp (1::real)"
proof -
  have sq: "\<And>x c d :: real. c \<le> exp x \<Longrightarrow> 0 \<le> c \<Longrightarrow> d \<le> c\<^sup>2 \<Longrightarrow> d \<le> exp (2 * x)"
  proof -
    fix x c d :: real
    assume a: "c \<le> exp x" and c: "0 \<le> c" and b: "d \<le> c\<^sup>2"
    have "c\<^sup>2 \<le> (exp x)\<^sup>2" using a c by (intro power_mono) simp_all
    also have "\<dots> = exp (2 * x)" by (rule exp_double [symmetric])
    finally show "d \<le> exp (2 * x)" using b by linarith
  qed
  have "1 + (1 / 4 :: real) + (1 / 4)\<^sup>2 / 2 \<le> exp (1 / 4)"
    by (rule exp_lower_Taylor_quadratic) simp
  then have e0: "(1.28125 :: real) \<le> exp (1 / 4)" by (simp add: power2_eq_square)
  have e1: "(1.64 :: real) \<le> exp (1 / 2)"
    using sq [OF e0, of "1.64"] by (simp add: power2_eq_square)
  have e2: "(2.68 :: real) \<le> exp 1"
    using sq [OF e1, of "2.68"] by (simp add: power2_eq_square)
  then show ?thesis .
qed

lemma ugrnn_example_value:
  "(1 - 1 / (1 + exp (- 1))) * tanh (1::real) = (exp 1 - 1) / ((exp 1)\<^sup>2 + 1)"
proof -
  define e where "e = exp (1::real)"
  have epos: "0 < e" by (simp add: e_def)
  have m1: "exp (- 1 :: real) = 1 / e" by (simp add: e_def exp_minus inverse_eq_divide)
  have "exp (- 2 * 1 :: real) = (exp (- 1))\<^sup>2" using exp_double [of "- 1 :: real"] by simp
  then have m2: "exp (- 2 * 1 :: real) = 1 / e\<^sup>2" by (simp add: m1 power_divide)
  have e2pos: "0 < e\<^sup>2" using epos by simp
  have n1: "1 - 1 / e\<^sup>2 = (e\<^sup>2 - 1) / e\<^sup>2" using e2pos by (simp add: field_simps)
  have n2: "1 + 1 / e\<^sup>2 = (e\<^sup>2 + 1) / e\<^sup>2" using e2pos by (simp add: field_simps)
  have t: "tanh (1::real) = (e\<^sup>2 - 1) / (e\<^sup>2 + 1)"
    unfolding tanh_real_altdef [of 1] m2 n1 n2 using e2pos by simp
  have s: "1 - 1 / (1 + exp (- 1 :: real)) = 1 / (e + 1)"
    unfolding m1 using epos by (simp add: field_simps)
  have "(1 / (e + 1)) * ((e\<^sup>2 - 1) / (e\<^sup>2 + 1)) = (e - 1) / (e\<^sup>2 + 1)"
  proof -
    have "e\<^sup>2 - 1 = (e - 1) * (e + 1)" by (simp add: power2_eq_square algebra_simps)
    then show ?thesis using epos by simp
  qed
  then show ?thesis unfolding s t e_def [symmetric] .
qed

lemma ugrnn_example_approx:
  "\<bar>(1 - 1 / (1 + exp (- 1))) * tanh (1::real) - 0.205\<bar> < 0.0005"
proof -
  define e where "e = exp (1::real)"
  have lo: "2.68 \<le> e" and hi: "e \<le> 2.74"
    using exp_1_lower exp_1_upper by (simp_all add: e_def)
  have "0 \<le> e\<^sup>2" by simp
  then have den: "0 < e\<^sup>2 + 1" by linarith
  define q where "q = e * e"
  have p1: "(e - 2.21) * (e - 2.665) = q - 4.875 * e + 5.88965"
    by (simp add: q_def field_simps)
  have p2: "(e - 2.15) * (e - 2.74) = q - 4.89 * e + 5.891"
    by (simp add: q_def field_simps)
  have "0 \<le> (e - 2.21) * (e - 2.665)" using lo by (intro mult_nonneg_nonneg) simp_all
  then have "e - 1 < 0.2055 * (q + 1)" using lo unfolding p1 by simp
  then have up: "e - 1 < 0.2055 * (e\<^sup>2 + 1)" by (simp add: q_def power2_eq_square)
  have "(e - 2.15) * (e - 2.74) \<le> 0" using lo hi by (intro mult_nonneg_nonpos) simp_all
  then have "0.2045 * (q + 1) < e - 1" using hi unfolding p2 by simp
  then have dn: "0.2045 * (e\<^sup>2 + 1) < e - 1" by (simp add: q_def power2_eq_square)
  define r where "r = (e - 1) / (e\<^sup>2 + 1)"
  have r1: "r < 411 / 2000" using up den by (simp add: r_def pos_divide_less_eq)
  have r2: "409 / 2000 < r" using dn den by (simp add: r_def pos_less_divide_eq)
  have "\<bar>r - 41 / 200\<bar> < 1 / 2000" using r1 r2 by linarith
  then have "\<bar>r - 0.205\<bar> < 0.0005" by simp
  then show ?thesis unfolding ugrnn_example_value e_def [symmetric] r_def .
qed

text \<open>
  C5: for parameters whose vectors have one length, \<open>calculateModel UGRNN\<close> returns
  \<open>gate1 = sigmoid(inputX + hiddenPrev, bias1)\<close>, the candidate \<open>tanh(inputX + hiddenPrev)\<close>
  with bias 0 and the new hidden state \<open>gate1*hiddenPrev + (1 - gate1)*candidateState\<close>;
  for \<open>inputX = [1, 0]\<close>, \<open>hiddenPrev = [0, 0]\<close>, \<open>bias1 = 0\<close> the new hidden state is
  \<open>[(1 - sigmoid 1) * tanh 1, 0]\<close>, whose first element is within 0.0005 of 0.205.
\<close>

theorem C5_ugrnn_formulas:
  assumes "length (hiddenH p) = length (inputX p)"
  shows "gate1 (calculateModel UGRNN p) = spec_sigmoid (spec_mix p) (biasGate1 p) \<and>
         candidateState (calculateModel UGRNN p) = spec_tanh (spec_mix p) 0 \<and>
         finalH (calculateModel UGRNN p) =
           map Some (spec_interpolate (gate1 (calculateModel UGRNN p)) (hiddenH p)
                       (candidateState (calculateModel UGRNN p))) \<and>
         finalH (calculateModel UGRNN
                   \<lparr> vectorSize = 2, inputX = [1, 0], hiddenH = [0, 0], cellC = cell,
                     biasGate1 = 0, biasGate2 = b2, biasGate3 = b3 \<rparr>) =
           [Some ((1 - 1 / (1 + exp (- 1))) * tanh 1), Some 0] \<and>
         \<bar>(1 - 1 / (1 + exp (- 1))) * tanh (1::real) - 0.205\<bar> < 0.0005"
proof -
  have general:
    "gate1 (calculateModel UGRNN q) = spec_sigmoid (spec_mix q) (biasGate1 q) \<and>
     candidateState (calculateModel UGRNN q) = spec_tanh (spec_mix q) 0 \<and>
     finalH (calculateModel UGRNN q) =
       map Some (spec_interpolate (gate1 (calculateModel UGRNN q)) (hiddenH q)
                   (candidateState (calculateModel UGRNN q)))"
    if "length (hiddenH q) = length (inputX q)" for q
    using that
    by (simp add: calculateModel_def Let_def vecSigmoid_spec vecTanh_spec
        vecAdd_eq_spec_add vecMix_spec spec_mix_def)
  have example:
    "finalH (calculateModel UGRNN
               \<lparr> vectorSize = 2, inputX = [1, 0], hiddenH = [0, 0], cellC = cell,
                 biasGate1 = 0, biasGate2 = b2, biasGate3 = b3 \<rparr>) =
       [Some ((1 - 1 / (1 + exp (- 1))) * tanh 1), Some 0]"
    by (simp add: calculateModel_def Let_def vecAdd_def vecSigmoid_def vecTanh_def
        vecMix_def map_index_def js_index_def or_zero_def mix_elem_def)
  show ?thesis using general [OF assms] example ugrnn_example_approx by simp
qed

theorem C5_witness:
  "length (hiddenH initial_params) = length (inputX initial_params) \<and>
   gate1 (calculateModel UGRNN initial_params) = [1 / (1 + exp (- 1)), 1 / 2] \<and>
   candidateState (calculateModel UGRNN initial_params) = [tanh 1, 0] \<and>
   finalH (calculateModel UGRNN initial_params) =
     [Some ((1 - 1 / (1 + exp (- 1))) * tanh 1), Some 0]"
  using C5_ugrnn_formulas [of initial_params "Some [0, 0]" 0 0]
  by (simp add: initial_params_def spec_sigmoid_def spec_tanh_def spec_add_def
      spec_pad_def spec_interpolate_def spec_mix_def)

section \<open>Ranges of the reported activations\<close>

subsection \<open>Rounding to binary64\<close>

lemma round_half_even_cases:
  "round_half_even y = \<lfloor>y\<rfloor> \<or> (round_half_even y = \<lfloor>y\<rfloor> + 1 \<and> of_int \<lfloor>y\<rfloor> < y)"
  by (auto simp add: round_half_even_def)

lemma round_half_even_ge: "of_int N \<le> y \<Longrightarrow> N \<le> round_half_even y"
proof -
  assume "of_int N \<le> y"
  then have "N \<le> \<lfloor>y\<rfloor>" by (simp add: le_floor_iff)
  then show ?thesis using round_half_even_cases [of y] by auto
qed

lemma round_half_even_le: "y \<le> of_int N \<Longrightarrow> round_half_even y \<le> N"
proof -
  assume a: "y \<le> of_int N"
  have fl: "\<lfloor>y\<rfloor> \<le> N" using a by (simp add: floor_le_iff)
  show ?thesis
  proof (cases "round_half_even y = \<lfloor>y\<rfloor>")
    case True
    then show ?thesis using fl by simp
  next
    case False
    then have r: "round_half_even y = \<lfloor>y\<rfloor> + 1" and lt: "of_int \<lfloor>y\<rfloor> < y"
      using round_half_even_cases [of y] by auto
    from lt a have "of_int \<lfloor>y\<rfloor> < (of_int N :: real)" by linarith
    then have "\<lfloor>y\<rfloor> < N" by simp
    then show ?thesis using r by simp
  qed
qed

lemma round_half_even_of_int [simp]: "round_half_even (of_int N) = N"
  by (simp add: round_half_even_def)

lemma round_half_even_numeral [simp]: "round_half_even (numeral n) = numeral n"
  using round_half_even_of_int [of "numeral n"] by simp

lemma powr2_int: "2 powr real_of_int k = (2::real) powi k"
  by (simp add: powr_real_of_int')

lemma powr2_int_Suc: "2 powr (real_of_int k + 1) = (2::real) powi (k + 1)"
  using powr2_int [of "k + 1"] by simp

lemma floor_log2_bounds:
  assumes "0 < x"
  shows "2 powi \<lfloor>log 2 x\<rfloor> \<le> x" and "x < 2 powi (\<lfloor>log 2 x\<rfloor> + 1)"
proof -
  have "2 powr real_of_int \<lfloor>log 2 x\<rfloor> \<le> x \<and> x < 2 powr (real_of_int \<lfloor>log 2 x\<rfloor> + 1)"
    using floor_log_eq_powr_iff [of x 2 "\<lfloor>log 2 x\<rfloor>"] assms by simp
  then show "2 powi \<lfloor>log 2 x\<rfloor> \<le> x" and "x < 2 powi (\<lfloor>log 2 x\<rfloor> + 1)"
    by (simp_all add: powr2_int powr2_int_Suc)
qed

lemma floor_log2_eqI:
  assumes "2 powi k \<le> x" and "x < 2 powi (k + 1)"
  shows "\<lfloor>log 2 x\<rfloor> = k"
proof -
  have "0 < (2::real) powi k" by simp
  then have pos: "0 < x" using assms(1) by linarith
  show ?thesis
    using floor_log_eq_powr_iff [of x 2 k] pos assms by (simp add: powr2_int powr2_int_Suc)
qed

lemma floor_log2_ge:
  assumes "2 powi k \<le> x"
  shows "k \<le> \<lfloor>log 2 x\<rfloor>"
proof -
  have "0 < (2::real) powi k" by simp
  then have pos: "0 < x" using assms by linarith
  have "2 powi k < (2::real) powi (\<lfloor>log 2 x\<rfloor> + 1)"
    using assms floor_log2_bounds(2) [OF pos] by linarith
  then have "k < \<lfloor>log 2 x\<rfloor> + 1"
    using power_int_increasing [of "\<lfloor>log 2 x\<rfloor> + 1" k "2::real"] by (cases "k < \<lfloor>log 2 x\<rfloor> + 1") auto
  then show ?thesis by simp
qed

lemma floor_log2_le:
  assumes "0 < x" and "x \<le> 2 powi k"
  shows "\<lfloor>log 2 x\<rfloor> \<le> k"
proof -
  have "2 powi \<lfloor>log 2 x\<rfloor> \<le> (2::real) powi k"
    using assms floor_log2_bounds(1) [OF assms(1)] by linarith
  then show ?thesis
    using power_int_strict_increasing [of k "\<lfloor>log 2 x\<rfloor>" "2::real"] by (cases "\<lfloor>log 2 x\<rfloor> \<le> k") auto
qed

lemma two_powi_of_int: "0 \<le> n \<Longrightarrow> (2::real) powi n = of_int (2 ^ nat n)"
  by (simp add: power_int_def)

lemma two_powi_div: "(2::real) powi a / 2 powi b = 2 powi (a - b)"
  by (simp add: power_int_diff)

lemma ulp_pos: "0 < ulp x"
  by (simp add: ulp_def)

lemma round_magnitude_lower:
  assumes "2 powi k \<le> x" and "- 1022 \<le> k"
  shows "round_magnitude x = PosInf \<or> (\<exists>r. round_magnitude x = Num r \<and> 2 powi k \<le> r)"
proof -
  define e where "e = \<lfloor>log 2 x\<rfloor>"
  have "0 < (2::real) powi k" by simp
  then have pos: "0 < x" using assms(1) by linarith
  have ke: "k \<le> e" unfolding e_def using assms(1) by (rule floor_log2_ge)
  then have "max \<lfloor>log 2 x\<rfloor> (- 1022) = e" using assms(2) unfolding e_def by linarith
  then have u: "ulp x = 2 powi (e - 52)" by (simp only: ulp_def)
  have "2 powi e \<le> x" unfolding e_def using pos by (rule floor_log2_bounds)
  then have "2 powi e / ulp x \<le> x / ulp x"
    using ulp_pos [of x] by (simp add: divide_right_mono)
  then have "of_int (2 ^ 52) \<le> x / ulp x"
    unfolding u two_powi_div by simp
  then have "2 ^ 52 \<le> round_half_even (x / ulp x)" by (rule round_half_even_ge)
  then have "(2::real) ^ 52 \<le> of_int (round_half_even (x / ulp x))"
    by (metis of_int_le_iff of_int_numeral of_int_power)
  then have "2 ^ 52 * ulp x \<le> of_int (round_half_even (x / ulp x)) * ulp x"
    using ulp_pos [of x] by (simp add: mult_right_mono)
  moreover have "2 ^ 52 * ulp x = 2 powi e"
  proof -
    have "(2::real) powi (52 + (e - 52)) = 2 powi 52 * 2 powi (e - 52)"
      by (rule power_int_add) simp
    moreover have "52 + (e - 52) = e" by simp
    moreover have "(2::real) powi 52 = 2 ^ 52" by simp
    ultimately show ?thesis unfolding u by (simp only:)
  qed
  moreover have "2 powi k \<le> (2::real) powi e"
    using ke by (simp add: power_int_increasing)
  ultimately have "2 powi k \<le> of_int (round_half_even (x / ulp x)) * ulp x" by linarith
  then show ?thesis using pos by (auto simp add: round_magnitude_def Let_def)
qed

lemma round_magnitude_upper:
  assumes "0 < x" and "x \<le> 2 powi k" and "- 1022 \<le> k" and "k \<le> 1023"
  shows "\<exists>r. round_magnitude x = Num r \<and> 0 \<le> r \<and> r \<le> 2 powi k"
proof -
  define e where "e = max \<lfloor>log 2 x\<rfloor> (- 1022)"
  define r where "r = of_int (round_half_even (x / ulp x)) * ulp x"
  have u: "ulp x = 2 powi (e - 52)" by (simp add: ulp_def e_def)
  have "\<lfloor>log 2 x\<rfloor> \<le> k" using assms(1,2) by (rule floor_log2_le)
  then have ek: "e \<le> k" using assms(3) by (simp add: e_def)
  then have n: "0 \<le> k - e + 52" by simp
  have "x / ulp x \<le> 2 powi k / ulp x"
    using assms(2) ulp_pos [of x] by (simp add: divide_right_mono)
  also have "2 powi k / ulp x = 2 powi (k - e + 52)"
    unfolding u two_powi_div by (simp add: algebra_simps)
  also have "\<dots> = of_int (2 ^ nat (k - e + 52))" using n by (rule two_powi_of_int)
  finally have "round_half_even (x / ulp x) \<le> 2 ^ nat (k - e + 52)"
    by (rule round_half_even_le)
  then have "(of_int (round_half_even (x / ulp x)) :: real) \<le> of_int (2 ^ nat (k - e + 52))"
    by (simp only: of_int_le_iff)
  also have "(of_int (2 ^ nat (k - e + 52)) :: real) = 2 powi (k - e + 52)"
    using n by (rule two_powi_of_int [symmetric])
  finally have "r \<le> 2 powi (k - e + 52) * ulp x"
    unfolding r_def using ulp_pos [of x] by (simp add: mult_right_mono)
  also have "2 powi (k - e + 52) * ulp x = 2 powi k"
  proof -
    have "(2::real) powi ((k - e + 52) + (e - 52)) = 2 powi (k - e + 52) * 2 powi (e - 52)"
      by (rule power_int_add) simp
    moreover have "(k - e + 52) + (e - 52) = k" by simp
    ultimately show ?thesis unfolding u by (simp only:)
  qed
  finally have rk: "r \<le> 2 powi k" .
  have "(2::real) powi k \<le> 2 powi 1023"
    using assms(4) by (simp add: power_int_increasing del: power_int_numeral)
  also have "\<dots> < (2::real) ^ 1024"
    using power_int_strict_increasing [of 1023 1024 "2::real"] by simp
  finally have small: "r < 2 ^ 1024" using rk by linarith
  have "of_int 0 \<le> x / ulp x" using assms(1) ulp_pos [of x] by simp
  then have "0 \<le> round_half_even (x / ulp x)" by (rule round_half_even_ge)
  then have "0 \<le> r" unfolding r_def using ulp_pos [of x] by simp
  then show ?thesis
    using assms(1) small rk by (auto simp add: round_magnitude_def Let_def r_def)
qed

lemma round_magnitude_nonneg:
  assumes "0 \<le> x"
  shows "round_magnitude x = PosInf \<or> (\<exists>r. round_magnitude x = Num r \<and> 0 \<le> r)"
proof (cases "x = 0")
  case True
  then show ?thesis by (simp add: round_magnitude_def)
next
  case False
  have "of_int 0 \<le> x / ulp x" using assms ulp_pos [of x] by simp
  then have "0 \<le> round_half_even (x / ulp x)" by (rule round_half_even_ge)
  then have "0 \<le> of_int (round_half_even (x / ulp x)) * ulp x"
    using ulp_pos [of x] by simp
  then show ?thesis using False by (auto simp add: round_magnitude_def Let_def)
qed

lemma round_magnitude_overflow:
  assumes "2 ^ 1024 \<le> x"
  shows "round_magnitude x = PosInf"
proof -
  have "(2::real) powi 1024 \<le> x" using assms by simp
  from round_magnitude_lower [OF this]
  have "round_magnitude x = PosInf \<or> (\<exists>r. round_magnitude x = Num r \<and> 2 powi 1024 \<le> r)"
    by simp
  moreover have "round_magnitude x \<noteq> Num r" if "2 powi 1024 \<le> r" for r
    using that by (auto simp add: round_magnitude_def Let_def)
  ultimately show ?thesis by blast
qed

lemma round_magnitude_unit:
  assumes "0 \<le> x" and "x \<le> 1"
  shows "\<exists>r. round_magnitude x = Num r \<and> 0 \<le> r \<and> r \<le> 1"
proof (cases "x = 0")
  case True
  then show ?thesis by (simp add: round_magnitude_def)
next
  case False
  then have "0 < x" using assms(1) by simp
  from round_magnitude_upper [OF this, of 0] assms(2) show ?thesis by simp
qed

lemma round_magnitude_ge_one:
  assumes "1 \<le> x"
  shows "round_magnitude x = PosInf \<or> (\<exists>r. round_magnitude x = Num r \<and> 1 \<le> r)"
  using round_magnitude_lower [of 0 x] assms by simp

lemma round_half_even_down:
  assumes "of_int N \<le> y" and "y < of_int N + 1 / 2"
  shows "round_half_even y = N"
proof -
  have "\<lfloor>y\<rfloor> = N" using assms by (intro floor_unique) linarith+
  then show ?thesis using assms by (simp add: round_half_even_def)
qed

lemma round_half_even_up:
  assumes "of_int N - 1 / 2 < y" and "y < of_int N"
  shows "round_half_even y = N"
proof -
  have "\<lfloor>y\<rfloor> = N - 1" using assms by (intro floor_unique) simp_all
  then show ?thesis using assms by (simp add: round_half_even_def)
qed

lemma ulp_binade:
  assumes "2 powi k \<le> x" and "x < 2 powi (k + 1)" and "- 1022 \<le> k"
  shows "ulp x = 2 powi (k - 52)"
proof -
  have "\<lfloor>log 2 x\<rfloor> = k" using assms(1,2) by (rule floor_log2_eqI)
  then have "max \<lfloor>log 2 x\<rfloor> (- 1022) = k" using assms(3) by linarith
  then show ?thesis by (simp only: ulp_def)
qed

lemma round_magnitude_eqI:
  assumes "2 powi k \<le> x" and "x < 2 powi (k + 1)" and "- 1022 \<le> k"
    and "round_half_even (x / 2 powi (k - 52)) = m"
    and "of_int m * 2 powi (k - 52) = r" and "r < 2 ^ 1024"
  shows "round_magnitude x = Num r"
proof -
  have "0 < (2::real) powi k" by simp
  then have "x \<noteq> 0" using assms(1) by linarith
  then show ?thesis
    using assms(4,5,6) by (simp add: round_magnitude_def Let_def ulp_binade [OF assms(1,2,3)])
qed

lemma round_magnitude_1: "round_magnitude 1 = Num 1"
  by (rule round_magnitude_eqI [of 0 _ "2 ^ 52"]) simp_all

lemma round_magnitude_40: "round_magnitude 40 = Num 40"
  by (rule round_magnitude_eqI [of 5 _ "40 * 2 ^ 47"]) simp_all

lemma round_magnitude_800: "round_magnitude 800 = Num 800"
  by (rule round_magnitude_eqI [of 9 _ "800 * 2 ^ 43"]) simp_all

lemma round_magnitude_above_1:
  assumes "1 \<le> x" and "x < 1 + 1 / 2 ^ 53"
  shows "round_magnitude x = Num 1"
proof (rule round_magnitude_eqI [of 0 _ "2 ^ 52"])
  show "2 powi 0 \<le> x" using assms(1) by simp
  have "(1::real) / 2 ^ 53 < 1" by simp
  then show "x < 2 powi (0 + 1)" using assms(2) by simp
  show "round_half_even (x / 2 powi (0 - 52)) = 2 ^ 52"
  proof (rule round_half_even_down)
    have e: "x / 2 powi (0 - 52) = x * 2 ^ 52" by (simp add: power_int_minus field_simps)
    show "of_int (2 ^ 52) \<le> x / 2 powi (0 - 52)" unfolding e using assms(1) by simp
    have "x * 2 ^ 52 < (1 + 1 / 2 ^ 53) * 2 ^ 52" using assms(2) by simp
    also have "\<dots> = 2 ^ 52 + 1 / 2" by simp
    finally show "x / 2 powi (0 - 52) < of_int (2 ^ 52) + 1 / 2" unfolding e by simp
  qed
qed simp_all

lemma round_magnitude_below_1:
  assumes "1 - 1 / 2 ^ 54 < x" and "x < 1"
  shows "round_magnitude x = Num 1"
proof (rule round_magnitude_eqI [of "- 1" _ "2 ^ 53"])
  have "(1::real) / 2 ^ 54 \<le> 1 / 2" by simp
  then show "2 powi (- 1) \<le> x" using assms(1) by (simp add: power_int_minus)
  show "x < 2 powi (- 1 + 1)" using assms(2) by simp
  show "round_half_even (x / 2 powi (- 1 - 52)) = 2 ^ 53"
  proof (rule round_half_even_up)
    have e: "x / 2 powi (- 1 - 52) = x * 2 ^ 53" by (simp add: power_int_minus field_simps)
    have "(1 - 1 / 2 ^ 54) * 2 ^ 53 < x * 2 ^ 53" using assms(1) by simp
    moreover have "(1 - 1 / 2 ^ 54) * 2 ^ 53 = (2::real) ^ 53 - 1 / 2" by simp
    ultimately show "of_int (2 ^ 53) - 1 / 2 < x / 2 powi (- 1 - 52)" unfolding e by simp
    show "x / 2 powi (- 1 - 52) < of_int (2 ^ 53)" unfolding e using assms(2) by simp
  qed
qed (simp_all add: power_int_minus)

subsection \<open>Ranges of sums, products, gates and candidates\<close>

lemma round64_cases:
  "round64 x = PosInf \<or> round64 x = NegInf \<or> (\<exists>r. round64 x = Num r)"
proof (cases "x < 0")
  case True
  then have "0 \<le> - x" by simp
  from round_magnitude_nonneg [OF this] True show ?thesis
    by (auto simp add: round64_def)
next
  case False
  then have "0 \<le> x" by simp
  from round_magnitude_nonneg [OF this] False show ?thesis
    by (auto simp add: round64_def)
qed

lemma round64_not_NaN [simp]: "round64 x \<noteq> NaN"
  using round64_cases [of x] by auto

lemma round64_nonneg:
  assumes "0 \<le> x"
  shows "round64 x = PosInf \<or> (\<exists>r. round64 x = Num r \<and> 0 \<le> r)"
  using round_magnitude_nonneg [OF assms] assms by (simp add: round64_def)

lemma round64_ge_one:
  assumes "1 \<le> x"
  shows "round64 x = PosInf \<or> (\<exists>r. round64 x = Num r \<and> 1 \<le> r)"
  using round_magnitude_ge_one [OF assms] assms by (simp add: round64_def)

lemma round64_unit:
  assumes "0 \<le> x" and "x \<le> 1"
  shows "in_closed_unit (round64 x)"
  using round_magnitude_unit [OF assms] assms
  by (auto simp add: round64_def in_closed_unit_def)

lemma round64_sym:
  assumes "- 1 \<le> x" and "x \<le> 1"
  shows "in_closed_sym (round64 x)"
proof (cases "x < 0")
  case True
  then have "0 \<le> - x" and "- x \<le> 1" using assms by simp_all
  from round_magnitude_unit [OF this] True show ?thesis
    by (auto simp add: round64_def in_closed_sym_def)
next
  case False
  then have "0 \<le> x" by simp
  from round_magnitude_unit [OF this assms(2)] False show ?thesis
    by (auto simp add: round64_def in_closed_sym_def)
qed

lemma in_closed_unit_Num: "in_closed_unit a \<Longrightarrow> \<exists>r. a = Num r \<and> 0 \<le> r \<and> r \<le> 1"
  by (cases a) (simp_all add: in_closed_unit_def)

lemma in_closed_sym_Num: "in_closed_sym a \<Longrightarrow> \<exists>r. a = Num r \<and> - 1 \<le> r \<and> r \<le> 1"
  by (cases a) (simp_all add: in_closed_sym_def)

lemma add64_Num_right_not_NaN: "a \<noteq> NaN \<Longrightarrow> add64 a (Num y) \<noteq> NaN"
  by (cases a) simp_all

lemma add64_Num_left_not_NaN: "b \<noteq> NaN \<Longrightarrow> add64 (Num x) b \<noteq> NaN"
  by (cases b) simp_all

lemma neg64_not_NaN: "a \<noteq> NaN \<Longrightarrow> neg64 a \<noteq> NaN"
  by (cases a) simp_all

lemma or_zero64_Num: "\<exists>r. or_zero64 (js_index (map Num v) i) = Num r"
  by (simp add: js_index_def)

lemma or_zero64_not_NaN: "or_zero64 a \<noteq> NaN"
  by (cases a rule: or_zero64.cases) simp_all

lemma or_zero64_sym:
  assumes "\<forall>b \<in> set v. in_closed_sym b"
  shows "in_closed_sym (or_zero64 (js_index v i))"
proof (cases "i < length v")
  case True
  then have "in_closed_sym (v ! i)" using assms by simp
  then obtain r where "v ! i = Num r" "- 1 \<le> r" "r \<le> 1"
    using in_closed_sym_Num by blast
  then show ?thesis using True by (simp add: js_index_def in_closed_sym_def)
next
  case False
  then show ?thesis by (simp add: js_index_def in_closed_sym_def)
qed

lemma sigmoid64_in_closed_unit:
  assumes E: "exp_impl E" and a: "a \<noteq> NaN"
  shows "in_closed_unit (div64 (Num 1) (add64 (Num 1) (E (neg64 (add64 a (Num b))))))"
proof -
  have "neg64 (add64 a (Num b)) \<noteq> NaN"
    using a by (intro neg64_not_NaN add64_Num_right_not_NaN)
  then have "E (neg64 (add64 a (Num b))) = PosInf \<or>
             (\<exists>r. E (neg64 (add64 a (Num b))) = Num r \<and> 0 \<le> r)"
    using E unfolding exp_impl_def by blast
  then show ?thesis
  proof
    assume "E (neg64 (add64 a (Num b))) = PosInf"
    then show ?thesis by (simp add: in_closed_unit_def)
  next
    assume "\<exists>r. E (neg64 (add64 a (Num b))) = Num r \<and> 0 \<le> r"
    then obtain r where r: "E (neg64 (add64 a (Num b))) = Num r" and r0: "0 \<le> r" by blast
    have "1 \<le> 1 + r" using r0 by simp
    from round64_ge_one [OF this] show ?thesis
    proof
      assume "round64 (1 + r) = PosInf"
      then show ?thesis by (simp add: r in_closed_unit_def)
    next
      assume "\<exists>d. round64 (1 + r) = Num d \<and> 1 \<le> d"
      then obtain d where d: "round64 (1 + r) = Num d" and d1: "1 \<le> d" by blast
      have "0 \<le> 1 / d" and "1 / d \<le> 1" using d1 by simp_all
      from round64_unit [OF this] show ?thesis using d1 by (simp add: r d)
    qed
  qed
qed

lemma vecSigmoid64_range:
  assumes "exp_impl E" and "\<forall>a \<in> set v. a \<noteq> NaN"
  shows "\<forall>x \<in> set (vecSigmoid64 E v (Num b)). in_closed_unit x"
  using assms by (auto simp add: vecSigmoid64_def intro: sigmoid64_in_closed_unit)

lemma vecTanh64_range:
  assumes "tanh_impl T" and "\<forall>a \<in> set v. a \<noteq> NaN"
  shows "\<forall>x \<in> set (vecTanh64 T v (Num b)). in_closed_sym x"
  using assms by (auto simp add: vecTanh64_def tanh_impl_def add64_Num_right_not_NaN)

lemma set_map_index: "x \<in> set (map_index f v) \<Longrightarrow> \<exists>i < length v. x = f (v ! i) i"
  by (auto simp add: map_index_def)

lemma vecAdd64_not_NaN_left: "\<forall>x \<in> set (vecAdd64 (map Num v1) v2). x \<noteq> NaN"
proof
  fix x assume "x \<in> set (vecAdd64 (map Num v1) v2)"
  then obtain i where "i < length v1" and
    x: "x = add64 (map Num v1 ! i) (or_zero64 (js_index v2 i))"
    unfolding vecAdd64_def using set_map_index by fastforce
  then show "x \<noteq> NaN" by (simp add: add64_Num_left_not_NaN or_zero64_not_NaN)
qed

lemma vecAdd64_not_NaN_right:
  assumes "\<forall>a \<in> set v1. a \<noteq> NaN" and "\<forall>b \<in> set v2. in_closed_sym b"
  shows "\<forall>x \<in> set (vecAdd64 v1 v2). x \<noteq> NaN"
proof
  fix x assume "x \<in> set (vecAdd64 v1 v2)"
  then obtain i where i: "i < length v1" and
    x: "x = add64 (v1 ! i) (or_zero64 (js_index v2 i))"
    unfolding vecAdd64_def using set_map_index by fastforce
  obtain r where "or_zero64 (js_index v2 i) = Num r"
    using or_zero64_sym [OF assms(2), of i] in_closed_sym_Num by blast
  moreover have "v1 ! i \<noteq> NaN" using assms(1) i by simp
  ultimately show "x \<noteq> NaN" using x by (simp add: add64_Num_right_not_NaN)
qed

lemma vecMult64_not_NaN:
  assumes "\<forall>a \<in> set v1. in_closed_unit a"
  shows "\<forall>x \<in> set (vecMult64 v1 (map Num v2)). x \<noteq> NaN"
proof
  fix x assume "x \<in> set (vecMult64 v1 (map Num v2))"
  then obtain i where i: "i < length v1" and
    x: "x = mul64 (v1 ! i) (or_zero64 (js_index (map Num v2) i))"
    unfolding vecMult64_def using set_map_index by fastforce
  obtain r where "or_zero64 (js_index (map Num v2) i) = Num r"
    using or_zero64_Num by blast
  moreover obtain u where "v1 ! i = Num u"
    using assms i in_closed_unit_Num by (metis nth_mem)
  ultimately show "x \<noteq> NaN" using x by simp
qed

lemma vecMult64_sym:
  assumes "\<forall>a \<in> set v1. in_closed_unit a" and "\<forall>b \<in> set v2. in_closed_sym b"
  shows "\<forall>x \<in> set (vecMult64 v1 v2). in_closed_sym x"
proof
  fix x assume "x \<in> set (vecMult64 v1 v2)"
  then obtain i where i: "i < length v1" and
    x: "x = mul64 (v1 ! i) (or_zero64 (js_index v2 i))"
    unfolding vecMult64_def using set_map_index by fastforce
  obtain r where r: "or_zero64 (js_index v2 i) = Num r" "- 1 \<le> r" "r \<le> 1"
    using or_zero64_sym [OF assms(2), of i] in_closed_sym_Num by blast
  obtain u where u: "v1 ! i = Num u" "0 \<le> u" "u \<le> 1"
    using assms(1) i in_closed_unit_Num by (metis nth_mem)
  have "\<bar>u * r\<bar> \<le> 1 * 1"
    unfolding abs_mult using u r by (intro mult_mono) simp_all
  then have "- 1 \<le> u * r" and "u * r \<le> 1" by (simp_all add: abs_le_iff)
  from round64_sym [OF this] show "in_closed_sym x" by (simp add: x r u)
qed

subsection \<open>The correctly rounded exponential and hyperbolic tangent at large arguments\<close>

lemma math_exp_impl: "exp_impl math_exp"
  unfolding exp_impl_def
proof (intro allI impI)
  fix a :: js_number assume "a \<noteq> NaN"
  then show "math_exp a = PosInf \<or> (\<exists>r. math_exp a = Num r \<and> 0 \<le> r)"
    by (cases a) (simp_all add: round64_nonneg)
qed

lemma math_tanh_impl: "tanh_impl math_tanh"
  unfolding tanh_impl_def
proof (intro allI impI)
  fix a :: js_number assume "a \<noteq> NaN"
  then show "in_closed_sym (math_tanh a)"
  proof (cases a)
    case (Num x)
    have "- 1 \<le> tanh x" and "tanh x \<le> 1"
      using tanh_real_gt_neg1 [of x] tanh_real_lt_1 [of x] by simp_all
    from round64_sym [OF this] show ?thesis using Num by simp
  qed (simp_all add: in_closed_sym_def)
qed

lemma exp_40_lower: "2 ^ 56 \<le> exp (40::real)"
proof -
  have "(2::real) ^ 56 = (2 ^ 7) ^ 8" by simp
  also have "\<dots> \<le> ((268 / 100) ^ 5) ^ 8"
  proof (intro power_mono)
    show "(2::real) ^ 7 \<le> (268 / 100) ^ 5" by (simp add: power_divide)
  qed simp
  also have "\<dots> = (268 / 100) ^ 40" by (simp add: power_mult [symmetric])
  also have "\<dots> \<le> exp 1 ^ 40" using exp_1_lower by (intro power_mono) simp_all
  also have "\<dots> = exp (40::real)" using exp_of_nat_mult [of 40 "1::real"] by simp
  finally show ?thesis .
qed

lemma exp_800_lower: "2 ^ 1024 \<le> exp (800::real)"
proof -
  have "(2::real) ^ 1024 = (2 ^ 32) ^ 32" by (simp add: power_mult [symmetric])
  also have "\<dots> \<le> ((268 / 100) ^ 25) ^ 32"
  proof (intro power_mono)
    show "(2::real) ^ 32 \<le> (268 / 100) ^ 25" by (simp add: power_divide)
  qed simp
  also have "\<dots> = (268 / 100) ^ 800" by (simp add: power_mult [symmetric])
  also have "\<dots> \<le> exp 1 ^ 800" using exp_1_lower by (intro power_mono) simp_all
  also have "\<dots> = exp (800::real)" using exp_of_nat_mult [of 800 "1::real"] by simp
  finally show ?thesis .
qed

lemma tanh_40_lower: "1 - 1 / 2 ^ 54 < tanh (40::real)"
proof -
  define q where "q = exp (- 80 :: real)"
  have qpos: "0 < q" by (simp add: q_def)
  have "exp (80::real) = exp 40 * exp 40" using exp_add [of "40::real" 40] by simp
  moreover have "(2::real) ^ 56 * 2 ^ 56 \<le> exp 40 * exp 40"
    using exp_40_lower by (intro mult_mono) simp_all
  ultimately have "(2::real) ^ 112 \<le> exp 80" by (simp add: power_add [symmetric])
  then have "1 / exp (80::real) \<le> 1 / 2 ^ 112"
    by (intro divide_left_mono) simp_all
  then have qle: "q \<le> 1 / 2 ^ 112" by (simp add: q_def exp_minus inverse_eq_divide)
  have t: "tanh (40::real) = (1 - q) / (1 + q)"
    using tanh_real_altdef [of 40] by (simp add: q_def)
  have "(1 - 2 * q) * (1 + q) \<le> 1 - q"
  proof -
    have "(1 - 2 * q) * (1 + q) = 1 - q - 2 * (q * q)" by (simp add: algebra_simps)
    moreover have "0 \<le> q * q" using qpos by simp
    ultimately show ?thesis by linarith
  qed
  then have "1 - 2 * q \<le> (1 - q) / (1 + q)" using qpos by (simp add: pos_le_divide_eq)
  moreover have "1 - 1 / 2 ^ 54 < 1 - 2 * q"
  proof -
    have "2 * q \<le> 2 * (1 / 2 ^ 112)" using qle by simp
    also have "\<dots> < 1 / (2::real) ^ 54" by simp
    finally show ?thesis by simp
  qed
  ultimately show ?thesis unfolding t by linarith
qed

lemma round64_1 [simp]: "round64 1 = Num 1"
  by (simp add: round64_def round_magnitude_1)

lemma round64_40 [simp]: "round64 40 = Num 40"
  by (simp add: round64_def round_magnitude_40)

lemma round64_minus_800 [simp]: "round64 (- 800) = Num (- 800)"
  by (simp add: round64_def round_magnitude_800)

lemma sigmoid64_at_40: "div64 (Num 1) (add64 (Num 1) (round64 (exp (- 40)))) = Num 1"
proof -
  have pos: "0 < exp (- 40 :: real)" by simp
  have "1 / exp (40::real) \<le> 1 / 2 ^ 56"
    using exp_40_lower by (intro divide_left_mono) simp_all
  then have "exp (- 40 :: real) \<le> 2 powi (- 56)"
    by (simp add: exp_minus inverse_eq_divide power_int_minus)
  from round_magnitude_upper [OF pos this]
  obtain y where y: "round_magnitude (exp (- 40)) = Num y" and y0: "0 \<le> y"
    and y1: "y \<le> 2 powi (- 56)" by auto
  have e: "round64 (exp (- 40)) = Num y" using y pos by (simp add: round64_def)
  have "y \<le> 1 / 2 ^ 56" using y1 by (simp add: power_int_minus inverse_eq_divide)
  also have "\<dots> < 1 / (2::real) ^ 53" by simp
  finally have "1 \<le> 1 + y" and "1 + y < 1 + 1 / 2 ^ 53" using y0 by simp_all
  then have "round_magnitude (1 + y) = Num 1" by (rule round_magnitude_above_1)
  then have "round64 (1 + y) = Num 1" using y0 by (simp add: round64_def)
  then show ?thesis by (simp add: e)
qed

lemma sigmoid64_at_minus_800:
  "div64 (Num 1) (add64 (Num 1) (round64 (exp 800))) = Num 0"
proof -
  have "round_magnitude (exp 800) = PosInf"
    using exp_800_lower by (rule round_magnitude_overflow)
  then have "round64 (exp 800) = PosInf" by (simp add: round64_def)
  then show ?thesis by simp
qed

lemma round_magnitude_tanh_large:
  assumes "40 \<le> x"
  shows "round_magnitude (tanh x) = Num 1"
proof (rule round_magnitude_below_1)
  have "tanh 40 \<le> tanh x" using assms by simp
  then show "1 - 1 / 2 ^ 54 < tanh x" using tanh_40_lower by linarith
  show "tanh x < 1" by (rule tanh_real_lt_1)
qed

lemma math_tanh_40: "round64 (tanh 40) = Num 1"
  using round_magnitude_tanh_large [of 40] by (simp add: round64_def)

lemma math_tanh_minus_800: "round64 (- tanh 800) = Num (- 1)"
  using round_magnitude_tanh_large [of 800] by (simp add: round64_def)

text \<open>
  C6 (as stated, refuted): with the correctly rounded \<open>Math.exp\<close> and \<open>Math.tanh\<close>, the
  UGRNN evaluation of \<open>inputX = [40, -800]\<close>, \<open>hiddenPrev = [0, 0]\<close> and zero biases reports
  the gate \<open>[1, 0]\<close> and the candidate \<open>[1, -1]\<close>: the elements are not strictly inside
  \<open>(0,1)\<close> and \<open>(-1,1)\<close>.
\<close>

theorem C6_counterexample:
  "gate1_64 (calculateModel64 math_exp math_tanh UGRNN
     \<lparr> vectorSize = 2, inputX = [40, - 800], hiddenH = [0, 0], cellC = Some [0, 0],
       biasGate1 = 0, biasGate2 = 0, biasGate3 = 0 \<rparr>) = [Num 1, Num 0] \<and>
   candidateState64 (calculateModel64 math_exp math_tanh UGRNN
     \<lparr> vectorSize = 2, inputX = [40, - 800], hiddenH = [0, 0], cellC = Some [0, 0],
       biasGate1 = 0, biasGate2 = 0, biasGate3 = 0 \<rparr>) = [Num 1, Num (- 1)]"
  by (simp add: calculateModel64_def Let_def vecAdd64_def vecSigmoid64_def vecTanh64_def
      map_index_def js_index_def sigmoid64_at_40 sigmoid64_at_minus_800 math_tanh_40
      math_tanh_minus_800)

text \<open>
  C6 (amended): for every architecture and all parameters (finite numbers), evaluated in
  binary64 with any \<open>Math.exp\<close> and \<open>Math.tanh\<close> as assumed above, every element of every
  reported gate vector is a number in the closed interval \<open>[0,1]\<close>, and every element of
  \<open>candidateState\<close>, and of \<open>tanhCell\<close> where it is reported, is a number in the closed
  interval \<open>[-1,1]\<close>.
\<close>

theorem C6_closed_ranges:
  assumes "exp_impl E" and "tanh_impl T"
  shows "(\<forall>x \<in> set (gate1_64 (calculateModel64 E T t p)). in_closed_unit x) \<and>
         (\<forall>x \<in> set (gate2_64 (calculateModel64 E T t p)). in_closed_unit x) \<and>
         (\<forall>x \<in> set (gate3_64 (calculateModel64 E T t p)). in_closed_unit x) \<and>
         (\<forall>x \<in> set (candidateState64 (calculateModel64 E T t p)). in_closed_sym x) \<and>
         (\<forall>c. tanhC64 (calculateModel64 E T t p) = Some c \<longrightarrow>
            (\<forall>x \<in> set c. in_closed_sym x))"
proof -
  let ?x = "map Num (inputX p)" and ?h = "map Num (hiddenH p)"
  let ?sum = "vecAdd64 ?x ?h"
  have sum: "\<forall>a \<in> set ?sum. a \<noteq> NaN" by (rule vecAdd64_not_NaN_left)
  have gate: "\<forall>x \<in> set (vecSigmoid64 E ?sum (Num b)). in_closed_unit x" for b
    using assms(1) sum by (rule vecSigmoid64_range)
  have cand: "\<forall>x \<in> set (vecTanh64 T ?sum (Num 0)). in_closed_sym x"
    using assms(2) sum by (rule vecTanh64_range)
  show ?thesis
  proof (cases t)
    case UGRNN
    then show ?thesis using gate cand by (simp add: calculateModel64_def Let_def)
  next
    case GRU
    have "\<forall>a \<in> set (vecMult64 (vecSigmoid64 E ?sum (Num (biasGate1 p))) ?h). a \<noteq> NaN"
      using gate by (rule vecMult64_not_NaN)
    then have "\<forall>a \<in> set (vecAdd64 ?x
        (vecMult64 (vecSigmoid64 E ?sum (Num (biasGate1 p))) ?h)). a \<noteq> NaN"
      by (simp add: vecAdd64_not_NaN_left)
    with assms(2) have "\<forall>x \<in> set (vecTanh64 T (vecAdd64 ?x
        (vecMult64 (vecSigmoid64 E ?sum (Num (biasGate1 p))) ?h)) (Num 0)). in_closed_sym x"
      by (rule vecTanh64_range)
    then show ?thesis using GRU gate by (simp add: calculateModel64_def Let_def)
  next
    case LSTM
    let ?prev = "case cellC p of Some c \<Rightarrow> c | None \<Rightarrow> replicate (length (inputX p)) 0"
    have prev: "(case map_option (map Num) (cellC p) of
                   Some c \<Rightarrow> c
                 | None \<Rightarrow> replicate (length ?x) (Num 0)) = map Num ?prev"
      by (cases "cellC p") (simp_all add: map_replicate)
    have t1: "\<forall>a \<in> set (vecMult64 (vecSigmoid64 E ?sum (Num (biasGate1 p)))
                           (map Num ?prev)). a \<noteq> NaN"
      using gate by (rule vecMult64_not_NaN)
    have t2: "\<forall>a \<in> set (vecMult64 (vecSigmoid64 E ?sum (Num (biasGate2 p)))
                           (vecTanh64 T ?sum (Num 0))). in_closed_sym a"
      using gate cand by (rule vecMult64_sym)
    have "\<forall>a \<in> set (vecAdd64
            (vecMult64 (vecSigmoid64 E ?sum (Num (biasGate1 p))) (map Num ?prev))
            (vecMult64 (vecSigmoid64 E ?sum (Num (biasGate2 p)))
               (vecTanh64 T ?sum (Num 0)))). a \<noteq> NaN"
      using t1 t2 by (rule vecAdd64_not_NaN_right)
    with assms(2) have "\<forall>x \<in> set (vecTanh64 T (vecAdd64
            (vecMult64 (vecSigmoid64 E ?sum (Num (biasGate1 p))) (map Num ?prev))
            (vecMult64 (vecSigmoid64 E ?sum (Num (biasGate2 p)))
               (vecTanh64 T ?sum (Num 0)))) (Num 0)). in_closed_sym x"
      by (rule vecTanh64_range)
    then show ?thesis
      using LSTM gate cand unfolding calculateModel64_def Let_def prev by simp
  qed
qed

theorem C6_witness:
  "exp_impl math_exp \<and> tanh_impl math_tanh \<and>
   in_closed_unit (Num 1) \<and> in_closed_unit (Num 0) \<and>
   in_closed_sym (Num 1) \<and> in_closed_sym (Num (- 1)) \<and>
   gate1_64 (calculateModel64 math_exp math_tanh UGRNN
     \<lparr> vectorSize = 2, inputX = [40, - 800], hiddenH = [0, 0], cellC = Some [0, 0],
       biasGate1 = 0, biasGate2 = 0, biasGate3 = 0 \<rparr>) = [Num 1, Num 0]"
  using C6_closed_ranges [OF math_exp_impl math_tanh_impl, of UGRNN
     "\<lparr> vectorSize = 2, inputX = [40, - 800], hiddenH = [0, 0], cellC = Some [0, 0],
       biasGate1 = 0, biasGate2 = 0, biasGate3 = 0 \<rparr>"]
    math_exp_impl math_tanh_impl
  by (simp add: calculateModel64_def Let_def vecAdd64_def vecSigmoid64_def vecTanh64_def
      map_index_def js_index_def sigmoid64_at_40 sigmoid64_at_minus_800 math_tanh_40
      math_tanh_minus_800 in_closed_unit_def in_closed_sym_def)

section \<open>The LSTM evaluation without a cell vector\<close>

text \<open>
  C10: when \<open>cellC\<close> is absent, \<open>calculateModel LSTM\<close> returns what it returns for the
  all-zeros previous cell of \<open>inputX\<close>'s length, and \<open>finalCell\<close> is the elementwise product
  of \<open>gate2\<close> and \<open>candidateState\<close>.
\<close>

theorem C10_lstm_absent_cell:
  assumes "cellC p = None"
  shows "calculateModel LSTM p =
           calculateModel LSTM (p\<lparr>cellC := Some (replicate (length (inputX p)) 0)\<rparr>) \<and>
         finalC (calculateModel LSTM p) =
           Some (map (\<lambda>(g, s). g * s)
                   (zip (gate2 (calculateModel LSTM p))
                        (candidateState (calculateModel LSTM p))))"
proof -
  have "vecAdd (vecMult f (replicate n 0)) (vecMult g s) = map (\<lambda>(a, b). a * b) (zip g s)"
    if "length f = n" "length g = n" "length s = n" for f g s :: "real list" and n
    using that by (intro nth_equalityI) (simp_all add: nth_vecAdd nth_vecMult)
  then show ?thesis using assms by (simp add: calculateModel_def Let_def)
qed

theorem C10_witness:
  "cellC (initial_params\<lparr>cellC := None\<rparr>) = None \<and>
   finalC (calculateModel LSTM (initial_params\<lparr>cellC := None\<rparr>)) =
     Some [1 / (1 + exp (- 1)) * tanh 1, 0]"
  using C10_lstm_absent_cell [of "initial_params\<lparr>cellC := None\<rparr>"]
  by (simp add: calculateModel_def Let_def initial_params_def vecAdd_def vecMult_def
      vecSigmoid_def vecTanh_def map_index_def js_index_def or_zero_def)

section \<open>The step sequencer under eligible triggers\<close>

lemma distinct_flow: "distinct (flow t)"
  by (cases t) simp_all

lemma flow_nonempty: "0 < length (flow t)"
  by (cases t) simp_all

lemma finish_nth:
  assumes "k < length (flow t)"
  shows "finish t (flow t ! k) m =
           (if Suc k < length (flow t)
            then m(flow t ! k \<mapsto> Done, flow t ! Suc k \<mapsto> Active)
            else m(flow t ! k \<mapsto> Done))"
proof (cases t)
  case UGRNN
  with assms have "k = 0 \<or> k = 1 \<or> k = 2 \<or> k = 3" by auto
  then show ?thesis using UGRNN by (auto simp add: ugrnn_finish_def)
next
  case GRU
  with assms have "k = 0 \<or> k = 1 \<or> k = 2 \<or> k = 3 \<or> k = 4 \<or> k = 5" by auto
  then show ?thesis using GRU by (auto simp add: gru_finish_def)
next
  case LSTM
  with assms have "k = 0 \<or> k = 1 \<or> k = 2 \<or> k = 3 \<or> k = 4" by auto
  then show ?thesis using LSTM by (auto simp add: lstm_finish_def)
qed

lemma schedules_nth:
  assumes "k < length (flow t)"
  shows "schedules_onComplete t (flow t ! k) \<longleftrightarrow> Suc k = length (flow t)"
proof (cases t)
  case UGRNN
  with assms have "k = 0 \<or> k = 1 \<or> k = 2 \<or> k = 3" by auto
  then show ?thesis using UGRNN by auto
next
  case GRU
  with assms have "k = 0 \<or> k = 1 \<or> k = 2 \<or> k = 3 \<or> k = 4 \<or> k = 5" by auto
  then show ?thesis using GRU by auto
next
  case LSTM
  with assms have "k = 0 \<or> k = 1 \<or> k = 2 \<or> k = 3 \<or> k = 4" by auto
  then show ?thesis using LSTM by auto
qed

lemma chain_inv_mount: "chain_inv t (mount t)"
proof -
  have "\<forall>i < length (flow t). initial_steps t (flow t ! i) = Some (chain_state 0 Active i)"
  proof (cases t)
    case UGRNN
    then show ?thesis
      by (auto simp add: ugrnn_initial_def chain_state_def less_Suc_eq numeral_eq_Suc)
  next
    case GRU
    then show ?thesis
      by (auto simp add: gru_initial_def chain_state_def less_Suc_eq numeral_eq_Suc)
  next
    case LSTM
    then show ?thesis
      by (auto simp add: lstm_initial_def chain_state_def less_Suc_eq numeral_eq_Suc)
  qed
  then show ?thesis
    unfolding chain_inv_def mount_def using flow_nonempty [of t]
    by (intro exI [of _ 0] exI [of _ Active]) auto
qed

lemma chain_inv_click:
  assumes inv: "chain_inv t d" and act: "steps d s = Some Active"
  shows "chain_inv t (handle t d (Click s))"
proof (cases "s \<in> set (flow t)")
  case False
  then show ?thesis using inv by simp
next
  case True
  from inv obtain k c where k: "k \<le> length (flow t)"
    and st: "\<forall>i < length (flow t). steps d (flow t ! i) = Some (chain_state k c i)"
    and tm: "step_timers d =
               (if k < length (flow t) \<and> c = Computing then [flow t ! k] else [])"
    and cm: "complete_timers d + completed d = (if k = length (flow t) then 1 else 0)"
    unfolding chain_inv_def by blast
  from True obtain i where i: "i < length (flow t)" and si: "flow t ! i = s"
    by (auto simp add: in_set_conv_nth)
  from st i si act have "chain_state k c i = Active" by auto
  then have ik: "i = k" and cA: "c = Active"
    by (auto simp add: chain_state_def split: if_splits)
  have h: "handle t d (Click s) = computeStep s d"
    using True by (simp add: node_onClick_def)
  have st': "\<forall>j < length (flow t).
               steps (computeStep s d) (flow t ! j) = Some (chain_state k Computing j)"
  proof (intro allI impI)
    fix j assume j: "j < length (flow t)"
    show "steps (computeStep s d) (flow t ! j) = Some (chain_state k Computing j)"
    proof (cases "j = k")
      case True
      then show ?thesis using si ik by (simp add: computeStep_def chain_state_def)
    next
      case False
      then have "flow t ! j \<noteq> s"
        using i ik j si distinct_flow [of t] by (auto simp add: nth_eq_iff_index_eq)
      then show ?thesis using st j False by (simp add: computeStep_def chain_state_def)
    qed
  qed
  have tm': "step_timers (computeStep s d) = [flow t ! k]"
    using tm cA si ik by (simp add: computeStep_def)
  have cm': "complete_timers (computeStep s d) + completed (computeStep s d) =
               (if k = length (flow t) then 1 else 0)"
    using cm by (simp add: computeStep_def)
  show ?thesis
    unfolding chain_inv_def h using k i ik st' tm' cm'
    by (intro exI [of _ k] exI [of _ Computing]) simp
qed

lemma chain_inv_step_timeout:
  assumes inv: "chain_inv t d"
  shows "chain_inv t (step_timeout t d)"
proof -
  from inv obtain k c where k: "k \<le> length (flow t)"
    and st: "\<forall>i < length (flow t). steps d (flow t ! i) = Some (chain_state k c i)"
    and tm: "step_timers d =
               (if k < length (flow t) \<and> c = Computing then [flow t ! k] else [])"
    and cm: "complete_timers d + completed d = (if k = length (flow t) then 1 else 0)"
    unfolding chain_inv_def by blast
  show ?thesis
  proof (cases "k < length (flow t) \<and> c = Computing")
    case False
    then have "step_timers d = []" using tm by simp
    then have "step_timeout t d = d" by (simp add: step_timeout_def)
    then show ?thesis using inv by simp
  next
    case True
    then have kl: "k < length (flow t)" and tm1: "step_timers d = [flow t ! k]"
      using tm by simp_all
    let ?d' = "step_timeout t d"
    have steps': "steps ?d' = finish t (flow t ! k) (steps d)"
      and tm': "step_timers ?d' = []"
      and ct': "complete_timers ?d' =
                  (if Suc k = length (flow t) then complete_timers d + 1
                   else complete_timers d)"
      and cp': "completed ?d' = completed d"
      using tm1 schedules_nth [OF kl] by (simp_all add: step_timeout_def)
    have st': "\<forall>j < length (flow t).
                 steps ?d' (flow t ! j) = Some (chain_state (Suc k) Active j)"
    proof (intro allI impI)
      fix j assume j: "j < length (flow t)"
      have neq: "\<And>a. a < length (flow t) \<Longrightarrow> (flow t ! j = flow t ! a) = (j = a)"
        using j distinct_flow [of t] by (simp add: nth_eq_iff_index_eq)
      show "steps ?d' (flow t ! j) = Some (chain_state (Suc k) Active j)"
      proof (cases "Suc k < length (flow t)")
        case True
        then show ?thesis
          using st j kl neq [of k] neq [of "Suc k"]
          by (auto simp add: steps' finish_nth [OF kl] chain_state_def)
      next
        case False
        then show ?thesis
          using st j kl neq [of k]
          by (auto simp add: steps' finish_nth [OF kl] chain_state_def)
      qed
    qed
    have cm': "complete_timers ?d' + completed ?d' =
                 (if Suc k = length (flow t) then 1 else 0)"
      using cm kl by (simp add: ct' cp')
    show ?thesis
      unfolding chain_inv_def using kl st' tm' cm'
      by (intro exI [of _ "Suc k"] exI [of _ Active]) simp
  qed
qed

lemma chain_inv_complete_timeout:
  assumes inv: "chain_inv t d"
  shows "chain_inv t (complete_timeout d)"
proof -
  have "steps (complete_timeout d) = steps d"
    and "step_timers (complete_timeout d) = step_timers d"
    and "complete_timers (complete_timeout d) + completed (complete_timeout d) =
           complete_timers d + completed d"
    by (simp_all add: complete_timeout_def)
  then show ?thesis using inv unfolding chain_inv_def by simp
qed

lemma chain_inv_handle:
  assumes "chain_inv t d" and "eligible d e"
  shows "chain_inv t (handle t d e)"
proof (cases e)
  case (Click s)
  then show ?thesis using assms chain_inv_click by simp
next
  case StepTimeout
  then show ?thesis using assms chain_inv_step_timeout by simp
next
  case CompleteTimeout
  then show ?thesis using assms chain_inv_complete_timeout by simp
next
  case InputsChanged
  then show ?thesis using assms by simp
qed

lemma chain_inv_run:
  "chain_inv t d \<Longrightarrow> eligible_run t d es \<Longrightarrow> chain_inv t (run t d es)"
  by (induction es arbitrary: d) (simp_all add: chain_inv_handle)

lemma deps_nth:
  assumes "i < length (flow t)"
  shows "deps t (flow t ! i) = take i (flow t)"
  unfolding deps_def
proof (rule takeWhile_eq_take_P_nth)
  fix j assume "j < i" "j < length (flow t)"
  then show "flow t ! j \<noteq> flow t ! i"
    using assms distinct_flow [of t] by (simp add: nth_eq_iff_index_eq)
next
  show "\<not> flow t ! i \<noteq> flow t ! i" by simp
qed

lemma chain_inv_order:
  assumes inv: "chain_inv t d" and s: "s \<in> set (flow t)" and dn: "steps d s = Some Done"
    and q: "q \<in> set (deps t s)"
  shows "steps d q = Some Done"
proof -
  from inv obtain k c where
    st: "\<forall>i < length (flow t). steps d (flow t ! i) = Some (chain_state k c i)"
    and c: "c = Active \<or> c = Computing"
    unfolding chain_inv_def by blast
  from s obtain i where i: "i < length (flow t)" and si: "flow t ! i = s"
    by (auto simp add: in_set_conv_nth)
  from q have "q \<in> set (take i (flow t))" using deps_nth [OF i] si by simp
  then obtain j where j: "j < i" and qj: "flow t ! j = q"
    using i by (auto simp add: in_set_conv_nth)
  from st i si dn have "chain_state k c i = Done" by auto
  then have "i < k" using c by (auto simp add: chain_state_def split: if_splits)
  then have "chain_state k c j = Done" using j by (simp add: chain_state_def)
  then show ?thesis using st j i qj by auto
qed

lemma chain_inv_resolved:
  assumes inv: "chain_inv t d"
  shows "complete_timers d + completed d = (if resolved t d then 1 else 0)"
proof -
  from inv obtain k c where k: "k \<le> length (flow t)"
    and st: "\<forall>i < length (flow t). steps d (flow t ! i) = Some (chain_state k c i)"
    and c: "c = Active \<or> c = Computing"
    and cm: "complete_timers d + completed d = (if k = length (flow t) then 1 else 0)"
    unfolding chain_inv_def by blast
  have "resolved t d \<longleftrightarrow> k = length (flow t)"
  proof
    assume r: "resolved t d"
    show "k = length (flow t)"
    proof (rule ccontr)
      assume "k \<noteq> length (flow t)"
      then have kl: "k < length (flow t)" using k by simp
      from r have "steps d (flow t ! k) = Some Done"
        using kl by (simp add: resolved_def list_all_length)
      then have "chain_state k c k = Done" using st kl by auto
      then show False using c by (auto simp add: chain_state_def)
    qed
  next
    assume "k = length (flow t)"
    then show "resolved t d"
      using st by (simp add: resolved_def list_all_length chain_state_def)
  qed
  then show ?thesis using cm by simp
qed

lemmas diagram_defs =
  mount_def ugrnn_initial_def gru_initial_def lstm_initial_def node_onClick_def
  computeStep_def step_timeout_def complete_timeout_def inputs_changed_def
  ugrnn_finish_def gru_finish_def lstm_finish_def

text \<open>
  C1 (amended): in every run of a freshly mounted diagram in which each trigger is made
  on an \<open>active\<close> node and the inputs do not change, no step is \<open>done\<close> before every
  step it depends on is \<open>done\<close>, and the number of \<open>onComplete\<close> callbacks scheduled so far
  (run or still waiting out their 400 ms) is 1 once every step is \<open>done\<close> and 0 before.
\<close>

theorem C1_eligible_runs:
  assumes "eligible_run t (mount t) es"
  shows "(\<forall>s \<in> set (flow t). steps (run t (mount t) es) s = Some Done \<longrightarrow>
            (\<forall>q \<in> set (deps t s). steps (run t (mount t) es) q = Some Done)) \<and>
         complete_timers (run t (mount t) es) + completed (run t (mount t) es) =
           (if resolved t (run t (mount t) es) then 1 else 0)"
proof -
  have "chain_inv t (run t (mount t) es)"
    using chain_inv_mount assms by (rule chain_inv_run)
  then show ?thesis using chain_inv_order chain_inv_resolved by blast
qed

theorem C1_witness:
  "eligible_run UGRNN (mount UGRNN)
     [Click Concat, StepTimeout, Click Gates, StepTimeout, Click Interp, StepTimeout,
      Click Add, StepTimeout, CompleteTimeout] \<and>
   resolved UGRNN (run UGRNN (mount UGRNN)
     [Click Concat, StepTimeout, Click Gates, StepTimeout, Click Interp, StepTimeout,
      Click Add, StepTimeout, CompleteTimeout]) \<and>
   complete_timers (run UGRNN (mount UGRNN)
     [Click Concat, StepTimeout, Click Gates, StepTimeout, Click Interp, StepTimeout,
      Click Add, StepTimeout, CompleteTimeout]) +
   completed (run UGRNN (mount UGRNN)
     [Click Concat, StepTimeout, Click Gates, StepTimeout, Click Interp, StepTimeout,
      Click Add, StepTimeout, CompleteTimeout]) = 1"
proof -
  have e: "eligible_run UGRNN (mount UGRNN)
     [Click Concat, StepTimeout, Click Gates, StepTimeout, Click Interp, StepTimeout,
      Click Add, StepTimeout, CompleteTimeout]"
    by (simp add: mount_def ugrnn_initial_def node_onClick_def computeStep_def
        step_timeout_def complete_timeout_def ugrnn_finish_def)
  have r: "resolved UGRNN (run UGRNN (mount UGRNN)
     [Click Concat, StepTimeout, Click Gates, StepTimeout, Click Interp, StepTimeout,
      Click Add, StepTimeout, CompleteTimeout])"
    by (simp add: resolved_def mount_def ugrnn_initial_def node_onClick_def computeStep_def
        step_timeout_def complete_timeout_def ugrnn_finish_def)
  show ?thesis using C1_eligible_runs [OF e] e r by (simp add: diagram_defs)
qed

text \<open>
  C1 (as stated, refuted): a click on the \<open>pending\<close> final node of a fresh UGRNN diagram
  makes it \<open>done\<close> while the step before it is still \<open>pending\<close>, and schedules
  \<open>onComplete\<close> although the graph is not resolved; clicking the final node again after a
  full pass calls \<open>onComplete\<close> a second time; and at the moment the last node of an
  orderly pass becomes \<open>done\<close>, \<open>onComplete\<close> has not been called yet (it waits for its
  400 ms callback).
\<close>

theorem C1_counterexample:
  "steps (run UGRNN (mount UGRNN) [Click Add, StepTimeout]) Add = Some Done \<and>
   Interp \<in> set (deps UGRNN Add) \<and>
   steps (run UGRNN (mount UGRNN) [Click Add, StepTimeout]) Interp = Some Pending \<and>
   \<not> resolved UGRNN (run UGRNN (mount UGRNN) [Click Add, StepTimeout]) \<and>
   complete_timers (run UGRNN (mount UGRNN) [Click Add, StepTimeout]) = 1 \<and>
   completed (run UGRNN (mount UGRNN)
     [Click Concat, StepTimeout, Click Gates, StepTimeout, Click Interp, StepTimeout,
      Click Add, StepTimeout, CompleteTimeout, Click Add, StepTimeout, CompleteTimeout]) = 2 \<and>
   resolved UGRNN (run UGRNN (mount UGRNN)
     [Click Concat, StepTimeout, Click Gates, StepTimeout, Click Interp, StepTimeout,
      Click Add, StepTimeout]) \<and>
   completed (run UGRNN (mount UGRNN)
     [Click Concat, StepTimeout, Click Gates, StepTimeout, Click Interp, StepTimeout,
      Click Add, StepTimeout]) = 0"
  by (simp add: resolved_def deps_def mount_def ugrnn_initial_def node_onClick_def
      computeStep_def step_timeout_def complete_timeout_def ugrnn_finish_def)

section \<open>Triggers on nodes that are not active\<close>

text \<open>
  C2 (the code at the failing inputs): in a fresh UGRNN diagram a click on the \<open>pending\<close>
  node \<open>add\<close> is not rejected, it moves the node to \<open>computing\<close> and schedules its
  callback; and while \<open>concat\<close> is \<open>computing\<close> a click on the \<open>pending\<close> node \<open>gates\<close> is
  accepted as well.
\<close>

theorem C2_ineligible_trigger_accepted:
  "steps (mount UGRNN) Add = Some Pending \<and>
   steps (handle UGRNN (mount UGRNN) (Click Add)) Add = Some Computing \<and>
   step_timers (handle UGRNN (mount UGRNN) (Click Add)) = [Add] \<and>
   steps (run UGRNN (mount UGRNN) [Click Concat]) Concat = Some Computing \<and>
   steps (run UGRNN (mount UGRNN) [Click Concat]) Gates = Some Pending \<and>
   steps (run UGRNN (mount UGRNN) [Click Concat, Click Gates]) Gates = Some Computing \<and>
   steps (run UGRNN (mount UGRNN) [Click Concat, Click Gates]) Concat = Some Computing"
  by (simp add: mount_def ugrnn_initial_def node_onClick_def computeStep_def)

section \<open>Input changes while a step is computing\<close>

lemma finish_marks_done: "s \<in> set (flow t) \<Longrightarrow> finish t s m s = Some Done"
  by (cases t) (auto simp add: ugrnn_finish_def gru_finish_def lstm_finish_def)

text \<open>
  C9 (as stated, refuted): in a UGRNN diagram whose \<open>concat\<close> step is \<open>computing\<close>, an
  input change resets the steps, and the callback scheduled before the change then marks
  \<open>concat\<close> \<open>done\<close> and \<open>gates\<close> \<open>active\<close> in the reset state.
\<close>

theorem C9_counterexample:
  "steps (run UGRNN (mount UGRNN) [Click Concat]) Concat = Some Computing \<and>
   steps (run UGRNN (mount UGRNN) [Click Concat, InputsChanged]) Concat = Some Active \<and>
   steps (run UGRNN (mount UGRNN) [Click Concat, InputsChanged, StepTimeout]) Concat =
     Some Done \<and>
   steps (run UGRNN (mount UGRNN) [Click Concat, InputsChanged, StepTimeout]) Gates =
     Some Active"
  by (simp add: mount_def ugrnn_initial_def node_onClick_def computeStep_def
      step_timeout_def inputs_changed_def ugrnn_finish_def)

text \<open>
  C9 (amended): an input change while a callback is scheduled puts every step back to
  its initial state and leaves the callback scheduled; when that callback runs it applies
  its update to the reset state, so its step becomes \<open>done\<close> there.
\<close>

theorem C9_reset_keeps_callback:
  assumes "step_timers d = s # rest"
  shows "steps (inputs_changed t d) = initial_steps t \<and>
         step_timers (inputs_changed t d) = s # rest \<and>
         steps (step_timeout t (inputs_changed t d)) = finish t s (initial_steps t) \<and>
         (s \<in> set (flow t) \<longrightarrow>
            steps (step_timeout t (inputs_changed t d)) s = Some Done)"
  using assms by (simp add: inputs_changed_def step_timeout_def finish_marks_done)

theorem C9_witness:
  "step_timers (run GRU (mount GRU) [Click Concat, StepTimeout, Click Gates]) = [Gates] \<and>
   Gates \<in> set (flow GRU) \<and>
   initial_steps GRU Gates = Some Pending \<and>
   steps (step_timeout GRU (inputs_changed GRU
     (run GRU (mount GRU) [Click Concat, StepTimeout, Click Gates]))) Gates = Some Done"
proof -
  have t: "step_timers (run GRU (mount GRU) [Click Concat, StepTimeout, Click Gates]) =
             Gates # []"
    by (simp add: mount_def gru_initial_def node_onClick_def computeStep_def
        step_timeout_def gru_finish_def)
  show ?thesis using C9_reset_keeps_callback [OF t, of GRU]
    by (simp add: diagram_defs)
qed

end
